theory Spec2Isabelle
  imports Complex_Main "HOL-Library.Log_Nat" "HOL-Library.Monad_Syntax"
begin

section \<open>Binary64 arithmetic on exact rationals\<close>

text \<open>
  The converter \<^verbatim>\<open>rgbToHSL\<close> works on Go \<^verbatim>\<open>float64\<close> values. A finite
  binary64 number is a rational, so a float is modelled by the rational it denotes and
  every arithmetic operation is the exact operation followed by rounding to 53
  significant bits, ties to even (\<open>rne53\<close>), which is what IEEE 754 prescribes for
  \<^verbatim>\<open>+ - * /\<close> and for the conversion \<^verbatim>\<open>float64(int)\<close>.

  The exponent is left unbounded: the channels are divided by 255 and combined by a
  handful of additions, subtractions and divisions, so every nonzero intermediate value
  stays far inside the normal range of binary64 and neither overflow nor gradual
  underflow changes a result. The sign of a zero is not tracked: the converter only
  compares zeros and converts them to the integer 0. The only way to leave the finite
  numbers is a division by zero; \<open>fdiv\<close> returns \<open>None\<close> there, and \<open>toInt\<close>
  returns \<open>None\<close> when the value does not fit a 64-bit \<^verbatim>\<open>int\<close>: the two places
  where Go leaves a final integer implementation-dependent. Each operation is rounded
  on its own, which is how the function runs where the compiler does not fuse a
  multiplication with an addition (the default on amd64).
\<close>

text \<open>\<open>ilog2 x\<close> is the binary exponent \<open>e\<close> of a positive rational: \<open>2 powi e \<le> x < 2 powi (e + 1)\<close>.\<close>

definition ilog2 :: "rat \<Rightarrow> int" where
  "ilog2 x = (let (p, q) = quotient_of x; d = bitlen p - bitlen q
              in if 2 powi d \<le> x then d else d - 1)"

text \<open>Rounding to the nearest integer, a tie going to the even neighbour.\<close>

definition rhe :: "rat \<Rightarrow> int" where
  "rhe y = (let f = \<lfloor>y\<rfloor>; d = y - of_int f
            in if d < 1/2 then f else if 1/2 < d then f + 1
               else if even f then f else f + 1)"

text \<open>Rounding to the nearest number with a 53-bit significand.\<close>

definition rne53 :: "rat \<Rightarrow> rat" where
  "rne53 x = (if x = 0 then 0
              else let q = 2 powi (ilog2 \<bar>x\<bar> - 52) in q * of_int (rhe (x / q)))"

definition float64 :: "int \<Rightarrow> rat" where
  "float64 n = rne53 (of_int n)"

definition fadd :: "rat \<Rightarrow> rat \<Rightarrow> rat" where
  "fadd x y = rne53 (x + y)"

definition fsub :: "rat \<Rightarrow> rat \<Rightarrow> rat" where
  "fsub x y = rne53 (x - y)"

definition fmul :: "rat \<Rightarrow> rat \<Rightarrow> rat" where
  "fmul x y = rne53 (x * y)"

definition fdiv :: "rat \<Rightarrow> rat \<Rightarrow> rat option" where
  "fdiv x y = (if y = 0 then None else Some (rne53 (x / y)))"

text \<open>\<^verbatim>\<open>math.Min\<close> and \<^verbatim>\<open>math.Max\<close> on finite arguments.\<close>

definition math_Min :: "rat \<Rightarrow> rat \<Rightarrow> rat" where
  "math_Min x y = min x y"

definition math_Max :: "rat \<Rightarrow> rat \<Rightarrow> rat" where
  "math_Max x y = max x y"

text \<open>\<^verbatim>\<open>math.Round\<close>: the nearest integer, a tie going away from zero.\<close>

definition math_Round :: "rat \<Rightarrow> rat" where
  "math_Round x = (if 0 \<le> x then of_int \<lfloor>x + 1/2\<rfloor> else - of_int \<lfloor>- x + 1/2\<rfloor>)"

text \<open>The conversion \<^verbatim>\<open>int(f)\<close>: truncation, defined only inside the 64-bit range.\<close>

definition toInt :: "rat \<Rightarrow> int option" where
  "toInt x = (if - (2 ^ 63) \<le> x \<and> x < 2 ^ 63
              then Some (if 0 \<le> x then \<lfloor>x\<rfloor> else \<lceil>x\<rceil>) else None)"


section \<open>The converter\<close>

text \<open>
  \<^verbatim>\<open>func rgbToHSL(red, green, blue int) (int, int, int)\<close>, statement by statement.
  The \<^verbatim>\<open>switch v\<close> compares \<open>v\<close> with \<open>r\<close>, \<open>g\<close>, \<open>b\<close> in this order and takes
  the first case that is equal; when none is, \<open>h\<close> keeps its initial value \<open>0.0\<close>.
  The result is \<open>None\<close> when one of the three integers is implementation-dependent
  in Go: after a division by zero, or when a rounded value does not fit an \<^verbatim>\<open>int\<close>.
  The source has no receiver, reads its three parameters and its local variables only,
  and calls nothing but \<^verbatim>\<open>math.Min\<close>, \<^verbatim>\<open>math.Max\<close> and \<^verbatim>\<open>math.Round\<close>;
  this is why the model takes the three integers and nothing else.
\<close>

definition rgbToHSL :: "int \<Rightarrow> int \<Rightarrow> int \<Rightarrow> (int \<times> int \<times> int) option" where
  "rgbToHSL red green blue = do {
     r \<leftarrow> fdiv (float64 red) 255;
     g \<leftarrow> fdiv (float64 green) 255;
     b \<leftarrow> fdiv (float64 blue) 255;
     let mn = math_Min (math_Min r g) b;
     let mx = math_Max (math_Max r g) b;
     let c = fsub mx mn;
     l \<leftarrow> fdiv (fadd mx mn) 2;
     if c = 0 then do {
       li \<leftarrow> toInt (math_Round (fmul 100 l));
       Some (0, 0, li)
     } else do {
       let v = mx;
       h \<leftarrow> (if v = r then do { q \<leftarrow> fdiv (fsub g b) c; Some (fadd 0 q) }
             else if v = g then do { q \<leftarrow> fdiv (fsub b r) c; Some (fadd 2 q) }
             else if v = b then do { q \<leftarrow> fdiv (fsub r g) c; Some (fadd 4 q) }
             else Some 0);
       let h = fmul h 60;
       let h = (if h < 0 then fadd h 360 else h);
       s \<leftarrow> fdiv (fsub v l) (math_Min l (fsub 1 l));
       hi \<leftarrow> toInt (math_Round h);
       si \<leftarrow> toInt (math_Round (fmul 100 s));
       li \<leftarrow> toInt (math_Round (fmul 100 l));
       Some (hi, si, li)
     }
   }"

text \<open>
  The Go function always returns three integers. \<open>rgbToHSL_on impl\<close> is the same
  function, statement by statement, as it runs on a platform: where \<^verbatim>\<open>int(f)\<close>
  cannot represent the float \<open>f\<close> (it is not finite, which here means the quotient
  \<open>s\<close> with a zero divisor, or it is outside the range of \<^verbatim>\<open>int\<close>) the integer is
  the one the platform produces. That integer is a function of the input; \<open>impl\<close> is
  this function, one component for each of the three conversions, and it is consulted
  for nothing else. The divisions by 255, by 2 and by the chroma \<open>c\<close> in the branch
  \<open>c \<noteq> 0\<close> never have a zero divisor.
\<close>

definition int_or :: "int \<Rightarrow> rat option \<Rightarrow> int" where
  "int_or d x = (case x of
                   None \<Rightarrow> d
                 | Some v \<Rightarrow> (case toInt v of None \<Rightarrow> d | Some i \<Rightarrow> i))"

definition rgbToHSL_on ::
  "(int \<Rightarrow> int \<Rightarrow> int \<Rightarrow> int \<times> int \<times> int) \<Rightarrow> int \<Rightarrow> int \<Rightarrow> int \<Rightarrow> int \<times> int \<times> int" where
  "rgbToHSL_on impl red green blue =
     (let u = impl red green blue;
          r = rne53 (float64 red / 255);
          g = rne53 (float64 green / 255);
          b = rne53 (float64 blue / 255);
          mn = math_Min (math_Min r g) b;
          mx = math_Max (math_Max r g) b;
          c = fsub mx mn;
          l = rne53 (fadd mx mn / 2)
      in if c = 0 then (0, 0, int_or (snd (snd u)) (Some (math_Round (fmul 100 l))))
         else
           (let v = mx;
                h = (if v = r then fadd 0 (rne53 (fsub g b / c))
                     else if v = g then fadd 2 (rne53 (fsub b r / c))
                     else if v = b then fadd 4 (rne53 (fsub r g / c))
                     else 0);
                h = fmul h 60;
                h = (if h < 0 then fadd h 360 else h);
                s = fdiv (fsub v l) (math_Min l (fsub 1 l))
            in (int_or (fst u) (Some (math_Round h)),
                int_or (fst (snd u)) (map_option (\<lambda>s. math_Round (fmul 100 s)) s),
                int_or (snd (snd u)) (Some (math_Round (fmul 100 l))))))"

text \<open>
  Names for the intermediate values of the converter: the normalised channel
  (\<^verbatim>\<open>float64(red) / 255.0\<close>), the chroma \<open>c\<close> and the lightness \<open>l\<close>.
\<close>

definition chan :: "int \<Rightarrow> rat" where
  "chan n = rne53 (float64 n / 255)"

definition chroma :: "int \<Rightarrow> int \<Rightarrow> int \<Rightarrow> rat" where
  "chroma red green blue =
     fsub (math_Max (math_Max (chan red) (chan green)) (chan blue))
          (math_Min (math_Min (chan red) (chan green)) (chan blue))"

definition lightness_of :: "int \<Rightarrow> int \<Rightarrow> int \<Rightarrow> rat" where
  "lightness_of red green blue =
     rne53 (fadd (math_Max (math_Max (chan red) (chan green)) (chan blue))
                 (math_Min (math_Min (chan red) (chan green)) (chan blue)) / 2)"

text \<open>The specification's \<open>round\<close> on exact numbers, a tie going away from zero.\<close>

definition nearest_int :: "rat \<Rightarrow> int" where
  "nearest_int x = (if 0 \<le> x then \<lfloor>x + 1/2\<rfloor> else - \<lfloor>- x + 1/2\<rfloor>)"

text \<open>
  The algorithm as the specification words it (steps 5 and 6), on normalised channels
  and in floating-point arithmetic: the hue in degrees and the saturation as a
  fraction, both before the final rounding to an integer.
\<close>

definition spec_hue :: "rat \<Rightarrow> rat \<Rightarrow> rat \<Rightarrow> rat" where
  "spec_hue r g b =
     (let mx = max (max r g) b; mn = min (min r g) b; c = fsub mx mn;
          h = (if r = mx then rne53 (fsub g b / c)
               else if g = mx then fadd 2 (rne53 (fsub b r / c))
               else fadd 4 (rne53 (fsub r g / c)));
          d = fmul h 60
      in if d < 0 then fadd d 360 else d)"

definition spec_saturation :: "rat \<Rightarrow> rat \<Rightarrow> rat" where
  "spec_saturation mx l = rne53 (fsub mx l / min l (fsub 1 l))"


section \<open>The client operations\<close>

text \<open>
  A Go \<^verbatim>\<open>error\<close> value is its message. The structs are records; a pointer field
  that may be \<^verbatim>\<open>nil\<close> is an option.
\<close>

datatype error = Error string

record Client =
  Host :: string
  Token :: string
  Verbose :: bool

record OnProperty =
  On_Value :: bool

record BrightnessProperty =
  Brightness_Min :: "int option"
  Brightness_Max :: "int option"
  Brightness_Value :: int
  Brightness_Duration :: int

record ColorTemperatureProperty =
  ColorTemperature_Min :: "int option"
  ColorTemperature_Max :: "int option"
  ColorTemperature_Value :: int

record HueProperty =
  Hue_Min :: "int option"
  Hue_Max :: "int option"
  Hue_Value :: int

record SaturationProperty =
  Saturation_Min :: "int option"
  Saturation_Max :: "int option"
  Saturation_Value :: int

record State =
  On :: "OnProperty option"
  Brightness :: "BrightnessProperty option"
  ColorTemperature :: "ColorTemperatureProperty option"
  Hue :: "HueProperty option"
  Saturation :: "SaturationProperty option"
  ColorMode :: string

record effectsSelectRequest =
  Select :: string

record Request =
  Method :: string
  URL :: string
  Header :: "string \<rightharpoonup> string"
  Body :: string

text \<open>
  What the operations do to the outside: the lines printed on standard output and the
  requests handed to the HTTP client, in order.
\<close>

record world =
  stdout :: "string list"
  requests :: "Request list"

text \<open>
  The libraries the client calls are parameters: \<^verbatim>\<open>json.Marshal\<close> on the two
  request types, the error \<^verbatim>\<open>http.NewRequest\<close> reports for a URL it cannot parse,
  and the error of \<^verbatim>\<open>http.Client.Do\<close>, which may depend on everything that
  happened before.
\<close>

record env =
  json_Marshal_State :: "State \<Rightarrow> error + string"
  json_Marshal_effectsSelectRequest :: "effectsSelectRequest \<Rightarrow> error + string"
  url_parse_error :: "string \<Rightarrow> error option"
  client_Do :: "world \<Rightarrow> Request \<Rightarrow> error option"

definition Endpoint :: "Client \<Rightarrow> string \<Rightarrow> string" where
  "Endpoint c path = ''http://'' @ Host c @ ''/api/v1/'' @ Token c @ ''/'' @ path"

definition http_NewRequest :: "env \<Rightarrow> string \<Rightarrow> string \<Rightarrow> error + Request" where
  "http_NewRequest e method url =
     (case url_parse_error e url of
        Some err \<Rightarrow> Inl err
      | None \<Rightarrow> Inr \<lparr>Method = method, URL = url, Header = Map.empty, Body = ''''\<rparr>)"

definition Put :: "env \<Rightarrow> Client \<Rightarrow> string \<Rightarrow> string \<Rightarrow> world \<Rightarrow> error option \<times> world" where
  "Put e c path body w =
     (let w1 = (if Verbose c
                then w\<lparr>stdout := stdout w @ [''PUT '' @ path, ''===> '' @ body, '''']\<rparr>
                else w);
          url = Endpoint c path
      in case http_NewRequest e ''PUT'' url of
           Inl err \<Rightarrow> (Some err, w1)
         | Inr req0 \<Rightarrow>
             (let req = req0\<lparr>Header := (Header req0)(''Content-Type'' \<mapsto> ''application/json'',
                                                       ''Accept'' \<mapsto> ''application/json''),
                             Body := body\<rparr>;
                  w2 = w1\<lparr>requests := requests w1 @ [req]\<rparr>
              in case client_Do e w1 req of
                   Some err \<Rightarrow> (Some err, w2)
                 | None \<Rightarrow> (None, w2)))"

text \<open>
  The request bodies before marshalling: the struct literal each operation builds.
  Fields that are not set are \<^verbatim>\<open>nil\<close> pointers, the zero integer or the empty string.
\<close>

definition brightness_state :: "int \<Rightarrow> State" where
  "brightness_state brightness =
     \<lparr>On = None,
      Brightness = Some \<lparr>Brightness_Min = None, Brightness_Max = None,
                         Brightness_Value = brightness, Brightness_Duration = 0\<rparr>,
      ColorTemperature = None, Hue = None, Saturation = None, ColorMode = ''''\<rparr>"

definition colorTemperature_state :: "int \<Rightarrow> State" where
  "colorTemperature_state temperature =
     \<lparr>On = None, Brightness = None,
      ColorTemperature = Some \<lparr>ColorTemperature_Min = None, ColorTemperature_Max = None,
                               ColorTemperature_Value = temperature\<rparr>,
      Hue = None, Saturation = None, ColorMode = ''''\<rparr>"

text \<open>The state of \<^verbatim>\<open>SetHSL\<close>: the lightness goes to the brightness field.\<close>

definition hsl_state :: "int \<Rightarrow> int \<Rightarrow> int \<Rightarrow> State" where
  "hsl_state hue sat lightness =
     \<lparr>On = None,
      Brightness = Some \<lparr>Brightness_Min = None, Brightness_Max = None,
                         Brightness_Value = lightness, Brightness_Duration = 0\<rparr>,
      ColorTemperature = None,
      Hue = Some \<lparr>Hue_Min = None, Hue_Max = None, Hue_Value = hue\<rparr>,
      Saturation = Some \<lparr>Saturation_Min = None, Saturation_Max = None, Saturation_Value = sat\<rparr>,
      ColorMode = ''''\<rparr>"

text \<open>
  The four setters marshal their body, return the marshalling error if there is one,
  call \<^verbatim>\<open>Put\<close> as a statement and return \<^verbatim>\<open>nil\<close>.
\<close>

definition SelectEffect :: "env \<Rightarrow> Client \<Rightarrow> string \<Rightarrow> world \<Rightarrow> error option \<times> world" where
  "SelectEffect e c name w =
     (let req = \<lparr>Select = name\<rparr>
      in case json_Marshal_effectsSelectRequest e req of
           Inl err \<Rightarrow> (Some err, w)
         | Inr bytes \<Rightarrow> (let (_, w') = Put e c ''effects/select'' bytes w in (None, w')))"

definition SetBrightness :: "env \<Rightarrow> Client \<Rightarrow> int \<Rightarrow> world \<Rightarrow> error option \<times> world" where
  "SetBrightness e c brightness w =
     (let state = brightness_state brightness
      in case json_Marshal_State e state of
           Inl err \<Rightarrow> (Some err, w)
         | Inr bytes \<Rightarrow> (let (_, w') = Put e c ''state'' bytes w in (None, w')))"

definition SetColorTemperature :: "env \<Rightarrow> Client \<Rightarrow> int \<Rightarrow> world \<Rightarrow> error option \<times> world" where
  "SetColorTemperature e c temperature w =
     (let state = colorTemperature_state temperature
      in case json_Marshal_State e state of
           Inl err \<Rightarrow> (Some err, w)
         | Inr bytes \<Rightarrow> (let (_, w') = Put e c ''state'' bytes w in (None, w')))"

definition SetHSL :: "env \<Rightarrow> Client \<Rightarrow> int \<Rightarrow> int \<Rightarrow> int \<Rightarrow> world \<Rightarrow> error option \<times> world" where
  "SetHSL e c hue sat lightness w =
     (let state = hsl_state hue sat lightness
      in case json_Marshal_State e state of
           Inl err \<Rightarrow> (Some err, w)
         | Inr bytes \<Rightarrow> (let (_, w') = Put e c ''state'' bytes w in (None, w')))"

text \<open>
  \<^verbatim>\<open>SetRGB\<close> calls the converter and hands its three integers to
  \<^verbatim>\<open>SetHSL\<close>, for every input.
\<close>

definition SetRGB ::
  "(int \<Rightarrow> int \<Rightarrow> int \<Rightarrow> int \<times> int \<times> int) \<Rightarrow> env \<Rightarrow> Client \<Rightarrow> int \<Rightarrow> int \<Rightarrow> int \<Rightarrow> world
     \<Rightarrow> error option \<times> world" where
  "SetRGB impl e c red green blue w =
     (let (h, s, l) = rgbToHSL_on impl red green blue in SetHSL e c h s l w)"


section \<open>Properties of the rounding\<close>

subsection \<open>Powers of two and the binary exponent\<close>

text \<open>
  The binary exponent computed from the bit lengths of numerator and denominator is the
  one that brackets \<open>x\<close> between two consecutive powers of two, and it is the only one.
\<close>

lemma pow2_pos: "0 < (2::rat) powi k"
  by simp

lemma pow2_add: "(2::rat) powi (a + b) = 2 powi a * 2 powi b"
  by (simp add: power_int_add)

lemma pow2_diff: "(2::rat) powi (a - b) = 2 powi a / 2 powi b"
  by (simp add: power_int_diff)

lemma pow2_less_iff: "(2::rat) powi a < 2 powi b \<longleftrightarrow> a < b"
proof
  assume h: "(2::rat) powi a < 2 powi b"
  show "a < b"
  proof (rule ccontr)
    assume "\<not> a < b"
    then have "b \<le> a" by simp
    then have "(2::rat) powi b \<le> 2 powi a" by (intro power_int_increasing) auto
    with h show False by simp
  qed
next
  assume "a < b"
  then show "(2::rat) powi a < 2 powi b" by (intro power_int_strict_increasing) auto
qed

lemma pow2_le_iff: "(2::rat) powi a \<le> 2 powi b \<longleftrightarrow> a \<le> b"
  using pow2_less_iff [of b a] by (auto simp: not_less [symmetric])

lemma pow2_bitlen:
  assumes "0 < (p::int)"
  shows "(2::rat) powi (bitlen p - 1) \<le> of_int p" and "of_int p < (2::rat) powi bitlen p"
proof -
  have b: "1 \<le> bitlen p" using assms bitlen_eq_zero_iff [of p] bitlen_nonneg [of p] by linarith
  from bitlen_bounds [OF assms] have lo: "2 ^ nat (bitlen p - 1) \<le> p" and hi: "p < 2 ^ nat (bitlen p)"
    by auto
  have "(of_int (2 ^ nat (bitlen p - 1)) :: rat) \<le> of_int p" using lo by (simp only: of_int_le_iff)
  then show "(2::rat) powi (bitlen p - 1) \<le> of_int p" using b by (simp add: power_int_nonneg_exp)
  have "(of_int p :: rat) < of_int (2 ^ nat (bitlen p))" using hi by (simp only: of_int_less_iff)
  then show "of_int p < (2::rat) powi bitlen p" using b by (simp add: power_int_nonneg_exp)
qed

lemma ilog2_bounds:
  assumes "0 < x"
  shows "2 powi ilog2 x \<le> x" and "x < 2 powi (ilog2 x + 1)"
proof -
  obtain p q where pq: "quotient_of x = (p, q)" by (cases "quotient_of x")
  have qpos: "0 < q" using pq quotient_of_denom_pos by blast
  have xeq: "x = of_int p / of_int q" using pq quotient_of_div by blast
  have ppos: "0 < p" using assms qpos xeq by (simp add: zero_less_divide_iff)
  define d where "d = bitlen p - bitlen q"
  have q': "(0::rat) < of_int q" using qpos by simp
  have p': "(0::rat) < of_int p" using ppos by simp
  have "x < 2 powi bitlen p / 2 powi (bitlen q - 1)"
    unfolding xeq using pow2_bitlen [OF ppos] pow2_bitlen [OF qpos] p'
    by (intro frac_less) (auto simp: less_imp_le)
  also have "\<dots> = 2 powi (d + 1)"
    unfolding d_def pow2_diff [symmetric] by (rule arg_cong [where f = "\<lambda>k. 2 powi k"]) simp
  finally have up: "x < 2 powi (d + 1)" .
  have "2 powi (d - 1) = 2 powi (bitlen p - 1) / (2::rat) powi bitlen q"
    unfolding d_def pow2_diff [symmetric] by (rule arg_cong [where f = "\<lambda>k. 2 powi k"]) simp
  also have "\<dots> < x"
    unfolding xeq using pow2_bitlen [OF ppos] pow2_bitlen [OF qpos] q'
    by (intro frac_less2) (auto simp: less_imp_le)
  finally have lo: "2 powi (d - 1) < x" .
  have il: "ilog2 x = (if 2 powi d \<le> x then d else d - 1)"
    by (simp add: ilog2_def pq d_def Let_def)
  show "2 powi ilog2 x \<le> x" using lo by (simp add: il less_imp_le)
  show "x < 2 powi (ilog2 x + 1)" using up by (simp add: il)
qed

lemma ilog2_unique:
  assumes "2 powi e \<le> x" "x < 2 powi (e + 1)"
  shows "ilog2 x = e"
proof -
  have xpos: "0 < x" using assms(1) pow2_pos [of e] by linarith
  have "(2::rat) powi e < 2 powi (ilog2 x + 1)"
    using assms(1) ilog2_bounds(2) [OF xpos] by linarith
  then have a: "e < ilog2 x + 1" by (simp only: pow2_less_iff)
  have "(2::rat) powi ilog2 x < 2 powi (e + 1)"
    using assms(2) ilog2_bounds(1) [OF xpos] by linarith
  then have b: "ilog2 x < e + 1" by (simp only: pow2_less_iff)
  show ?thesis using a b by linarith
qed

subsection \<open>Rounding to an integer\<close>

text \<open>Ties-to-even rounding fixes the integers, is monotone and is odd.\<close>

lemma rhe_of_int: "rhe (of_int n) = n"
  by (simp add: rhe_def)

lemma rhe_lower: "\<lfloor>y\<rfloor> \<le> rhe y"
  by (simp add: rhe_def Let_def)

lemma rhe_upper: "rhe y \<le> \<lfloor>y\<rfloor> + 1"
  by (simp add: rhe_def Let_def)

lemma rhe_mono:
  assumes "x \<le> y"
  shows "rhe x \<le> rhe y"
proof (cases "\<lfloor>x\<rfloor> = \<lfloor>y\<rfloor>")
  case True
  then show ?thesis using assms by (auto simp: rhe_def Let_def)
next
  case False
  then have "\<lfloor>x\<rfloor> < \<lfloor>y\<rfloor>" using assms floor_mono [of x y] by linarith
  then have "rhe x \<le> \<lfloor>y\<rfloor>" using rhe_upper [of x] by linarith
  then show ?thesis using rhe_lower [of y] by linarith
qed

lemma rhe_minus: "rhe (- y) = - rhe y"
proof (cases "y \<in> \<int>")
  case True
  then obtain n where "y = of_int n" by (auto elim: Ints_cases)
  then show ?thesis using rhe_of_int [of "- n"] rhe_of_int [of n] by simp
next
  case False
  then have "y \<noteq> of_int \<lfloor>y\<rfloor>" by (metis Ints_of_int)
  then have "\<lceil>y\<rceil> = \<lfloor>y\<rfloor> + 1" by (simp add: ceiling_altdef)
  then have fl: "\<lfloor>- y\<rfloor> = - \<lfloor>y\<rfloor> - 1" by (simp add: ceiling_def)
  show ?thesis
    unfolding rhe_def Let_def fl by (auto simp: algebra_simps)
qed


subsection \<open>Rounding to 53 bits: sign, monotonicity, fixed points\<close>

text \<open>
  For positive \<open>x\<close> with exponent \<open>e\<close> the rounded value is an integer between
  \<open>2 ^ 52\<close> and \<open>2 ^ 53\<close> times \<open>2 powi (e - 52)\<close>, so it stays between
  \<open>2 powi e\<close> and \<open>2 powi (e + 1)\<close>. Monotonicity follows: within one binade from
  \<open>rhe\<close>, across binades from these bounds. A value that is already a multiple of
  its unit in the last place is not changed, hence rounding twice is rounding once.
\<close>

lemma pow2_split52: "(2::rat) powi e = 2 powi (e - 52) * 2 ^ 52"
  using pow2_add [of "e - 52" 52] by simp

lemma pow2_split53: "(2::rat) powi (e + 1) = 2 powi (e - 52) * 2 ^ 53"
  using pow2_add [of "e - 52" 53] by (simp add: add.commute)

lemma rne53_zero: "rne53 0 = 0"
  by (simp add: rne53_def)

lemma rne53_minus: "rne53 (- x) = - rne53 x"
  by (simp add: rne53_def Let_def rhe_minus)

lemma rne53_pos_form:
  assumes "0 < x"
  defines "q \<equiv> 2 powi (ilog2 x - 52)"
  shows "rne53 x = q * of_int (rhe (x / q))"
    and "2 ^ 52 \<le> rhe (x / q)" and "rhe (x / q) \<le> 2 ^ 53"
proof -
  have qpos: "0 < q" by (simp add: q_def)
  show "rne53 x = q * of_int (rhe (x / q))"
    using assms(1) by (simp add: rne53_def Let_def q_def)
  have "q * 2 ^ 52 \<le> x"
    using ilog2_bounds(1) [OF assms(1)] pow2_split52 [of "ilog2 x"] by (simp add: q_def)
  then have "of_int (2 ^ 52) \<le> x / q" using qpos by (simp add: pos_le_divide_eq mult.commute)
  from rhe_mono [OF this] show "2 ^ 52 \<le> rhe (x / q)" by (simp only: rhe_of_int)
  have "x < q * 2 ^ 53"
    using ilog2_bounds(2) [OF assms(1)] pow2_split53 [of "ilog2 x"] by (simp add: q_def)
  then have "x / q \<le> of_int (2 ^ 53)" using qpos by (simp add: pos_divide_le_eq mult.commute)
  from rhe_mono [OF this] show "rhe (x / q) \<le> 2 ^ 53" by (simp only: rhe_of_int)
qed

lemma rne53_pos_bounds:
  assumes "0 < x"
  shows "2 powi ilog2 x \<le> rne53 x" and "rne53 x \<le> 2 powi (ilog2 x + 1)"
proof -
  let ?q = "(2::rat) powi (ilog2 x - 52)"
  let ?n = "rhe (x / ?q)"
  have qpos: "0 < ?q" by simp
  note f = rne53_pos_form [OF assms]
  have "(2::rat) ^ 52 \<le> of_int ?n" using f(2) by (metis of_int_le_iff of_int_numeral of_int_power)
  then have "?q * 2 ^ 52 \<le> ?q * of_int ?n" using qpos by (simp only: mult_le_cancel_left_pos)
  then show "2 powi ilog2 x \<le> rne53 x" using f(1) pow2_split52 [of "ilog2 x"] by simp
  have "of_int ?n \<le> (2::rat) ^ 53" using f(3) by (metis of_int_le_iff of_int_numeral of_int_power)
  then have "?q * of_int ?n \<le> ?q * 2 ^ 53" using qpos by (simp only: mult_le_cancel_left_pos)
  then show "rne53 x \<le> 2 powi (ilog2 x + 1)" using f(1) pow2_split53 [of "ilog2 x"] by simp
qed

lemma rne53_pos: "0 < x \<Longrightarrow> 0 < rne53 x"
  using rne53_pos_bounds(1) [of x] pow2_pos [of "ilog2 x"] by linarith

lemma rne53_neg: "x < 0 \<Longrightarrow> rne53 x < 0"
  using rne53_pos [of "- x"] by (simp add: rne53_minus)

lemma rne53_eq_0_iff: "rne53 x = 0 \<longleftrightarrow> x = 0"
  using rne53_pos [of x] rne53_neg [of x] rne53_zero by (cases "x = 0"; cases "0 < x") auto

lemma rne53_mono_pos:
  assumes "0 < x" "x \<le> y"
  shows "rne53 x \<le> rne53 y"
proof -
  have ypos: "0 < y" using assms by linarith
  have "(2::rat) powi ilog2 x < 2 powi (ilog2 y + 1)"
    using ilog2_bounds(1) [OF assms(1)] ilog2_bounds(2) [OF ypos] assms(2) by linarith
  then have le: "ilog2 x \<le> ilog2 y" using pow2_less_iff [of "ilog2 x" "ilog2 y + 1"] by simp
  show ?thesis
  proof (cases "ilog2 x = ilog2 y")
    case True
    let ?q = "(2::rat) powi (ilog2 x - 52)"
    have qpos: "0 < ?q" by simp
    have "x / ?q \<le> y / ?q" using assms(2) qpos by (intro divide_right_mono) simp_all
    then have "rhe (x / ?q) \<le> rhe (y / ?q)" by (rule rhe_mono)
    then have "?q * of_int (rhe (x / ?q)) \<le> ?q * of_int (rhe (y / ?q))"
      using qpos by (simp only: mult_le_cancel_left_pos of_int_le_iff)
    then show ?thesis
      using rne53_pos_form(1) [OF assms(1)] rne53_pos_form(1) [OF ypos] True by simp
  next
    case False
    then have "ilog2 x + 1 \<le> ilog2 y" using le by simp
    then have "(2::rat) powi (ilog2 x + 1) \<le> 2 powi ilog2 y" by (simp only: pow2_le_iff)
    then show ?thesis
      using rne53_pos_bounds(2) [OF assms(1)] rne53_pos_bounds(1) [OF ypos] by linarith
  qed
qed

lemma rne53_mono:
  assumes "x \<le> y"
  shows "rne53 x \<le> rne53 y"
proof -
  consider "0 < x" | "x \<le> 0" "0 \<le> y" | "y < 0" using assms by linarith
  then show ?thesis
  proof cases
    case 1
    then show ?thesis using assms by (rule rne53_mono_pos)
  next
    case 2
    have "rne53 x \<le> 0" using 2(1) rne53_neg [of x] rne53_zero by (cases "x = 0") auto
    moreover have "0 \<le> rne53 y" using 2(2) rne53_pos [of y] rne53_zero by (cases "y = 0") auto
    ultimately show ?thesis by linarith
  next
    case 3
    then have "rne53 (- y) \<le> rne53 (- x)" using assms by (intro rne53_mono_pos) auto
    then show ?thesis by (simp add: rne53_minus)
  qed
qed

lemma rne53_exact:
  assumes "x / 2 powi (ilog2 \<bar>x\<bar> - 52) = of_int n"
  shows "rne53 x = x"
proof (cases "x = 0")
  case True
  then show ?thesis by (simp add: rne53_zero)
next
  case False
  let ?q = "(2::rat) powi (ilog2 \<bar>x\<bar> - 52)"
  have "rne53 x = ?q * of_int (rhe (x / ?q))" using False by (simp add: rne53_def Let_def)
  also have "\<dots> = ?q * (x / ?q)" by (simp only: assms rhe_of_int)
  also have "\<dots> = x" by simp
  finally show ?thesis .
qed

lemma rne53_idem_pos:
  assumes "0 < x"
  shows "rne53 (rne53 x) = rne53 x"
proof -
  let ?e = "ilog2 x"
  let ?q = "(2::rat) powi (?e - 52)"
  let ?n = "rhe (x / ?q)"
  note f = rne53_pos_form [OF assms]
  have qpos: "0 < ?q" by simp
  have ypos: "0 < rne53 x" using assms by (rule rne53_pos)
  show ?thesis
  proof (cases "?n = 2 ^ 53")
    case True
    then have y: "rne53 x = 2 powi (?e + 1)" using f(1) pow2_split53 [of ?e] by simp
    have "ilog2 (rne53 x) = ?e + 1"
      unfolding y by (rule ilog2_unique) (simp_all add: pow2_less_iff)
    then have "rne53 x / 2 powi (ilog2 \<bar>rne53 x\<bar> - 52) = 2 powi (?e + 1) / 2 powi (?e + 1 - 52)"
      using ypos y by simp
    also have "\<dots> = 2 powi 52" unfolding pow2_diff [symmetric] by simp
    also have "\<dots> = of_int (2 ^ 52)" by simp
    finally show ?thesis by (rule rne53_exact)
  next
    case False
    then have "?n < 2 ^ 53" using f(3) by linarith
    then have "of_int ?n < (2::rat) ^ 53" by (metis of_int_less_iff of_int_numeral of_int_power)
    then have "?q * of_int ?n < ?q * 2 ^ 53" using qpos by (simp only: mult_less_cancel_left_pos)
    then have up: "rne53 x < 2 powi (?e + 1)" using f(1) pow2_split53 [of ?e] by simp
    have "ilog2 (rne53 x) = ?e"
      using rne53_pos_bounds(1) [OF assms] up by (rule ilog2_unique)
    then have "rne53 x / 2 powi (ilog2 \<bar>rne53 x\<bar> - 52) = rne53 x / ?q" using ypos by simp
    also have "\<dots> = of_int ?n" using f(1) by simp
    finally show ?thesis by (rule rne53_exact)
  qed
qed

lemma rne53_idem: "rne53 (rne53 x) = rne53 x"
proof -
  consider "0 < x" | "x = 0" | "x < 0" by linarith
  then show ?thesis
  proof cases
    case 1
    then show ?thesis by (rule rne53_idem_pos)
  next
    case 2
    then show ?thesis by (simp add: rne53_zero)
  next
    case 3
    then have "rne53 (rne53 (- x)) = rne53 (- x)" by (intro rne53_idem_pos) simp
    then show ?thesis by (simp add: rne53_minus)
  qed
qed

lemma rne53_double: "rne53 (2 * x) = 2 * rne53 x"
proof (cases "x = 0")
  case True
  then show ?thesis by (simp add: rne53_zero)
next
  case False
  then have ax: "0 < \<bar>x\<bar>" by simp
  have "ilog2 (2 * \<bar>x\<bar>) = ilog2 \<bar>x\<bar> + 1"
  proof (rule ilog2_unique)
    show "2 powi (ilog2 \<bar>x\<bar> + 1) \<le> 2 * \<bar>x\<bar>"
      using ilog2_bounds(1) [OF ax] pow2_add [of "ilog2 \<bar>x\<bar>" 1] by simp
    show "2 * \<bar>x\<bar> < 2 powi (ilog2 \<bar>x\<bar> + 1 + 1)"
      using ilog2_bounds(2) [OF ax] pow2_add [of "ilog2 \<bar>x\<bar> + 1" 1] by simp
  qed
  then have e: "ilog2 \<bar>2 * x\<bar> - 52 = (ilog2 \<bar>x\<bar> - 52) + 1" by (simp add: abs_mult)
  have q: "(2::rat) powi (ilog2 \<bar>2 * x\<bar> - 52) = 2 powi (ilog2 \<bar>x\<bar> - 52) * 2"
    unfolding e pow2_add by simp
  show ?thesis using False by (simp add: rne53_def Let_def q)
qed

lemma rne53_half: "rne53 (x / 2) = rne53 x / 2"
  using rne53_double [of "x / 2"] by simp


subsection \<open>Scaling, exact values and the rounding error\<close>

text \<open>
  Multiplying by a power of two commutes with rounding (the exponent is unbounded),
  integers below \<open>2 ^ 53\<close> are exact, and the relative error of one rounding is at
  most \<open>1 / 2 ^ 53\<close>.
\<close>

lemma rne53_scale: "rne53 (x * 2 powi k) = rne53 x * 2 powi k"
proof (cases "x = 0")
  case True
  then show ?thesis by (simp add: rne53_zero)
next
  case False
  then have ax: "0 < \<bar>x\<bar>" by simp
  have kpos: "0 < (2::rat) powi k" by simp
  have "ilog2 (\<bar>x\<bar> * 2 powi k) = ilog2 \<bar>x\<bar> + k"
  proof (rule ilog2_unique)
    have "2 powi ilog2 \<bar>x\<bar> * 2 powi k \<le> \<bar>x\<bar> * 2 powi k"
      using ilog2_bounds(1) [OF ax] kpos by (simp only: mult_le_cancel_right_pos)
    then show "2 powi (ilog2 \<bar>x\<bar> + k) \<le> \<bar>x\<bar> * 2 powi k" by (simp only: pow2_add)
    have "\<bar>x\<bar> * 2 powi k < 2 powi (ilog2 \<bar>x\<bar> + 1) * 2 powi k"
      using ilog2_bounds(2) [OF ax] kpos by (simp only: mult_less_cancel_right_pos)
    also have "\<dots> = 2 powi (ilog2 \<bar>x\<bar> + k + 1)"
      unfolding pow2_add [symmetric] by (rule arg_cong [where f = "\<lambda>j. 2 powi j"]) simp
    finally show "\<bar>x\<bar> * 2 powi k < 2 powi (ilog2 \<bar>x\<bar> + k + 1)" .
  qed
  then have e: "ilog2 \<bar>x * 2 powi k\<bar> - 52 = (ilog2 \<bar>x\<bar> - 52) + k" by (simp add: abs_mult)
  have q: "(2::rat) powi (ilog2 \<bar>x * 2 powi k\<bar> - 52) = 2 powi (ilog2 \<bar>x\<bar> - 52) * 2 powi k"
    unfolding e pow2_add by simp
  show ?thesis using False by (simp add: rne53_def Let_def q)
qed

lemma rne53_of_nat_pos:
  assumes "0 < n" "n < 2 ^ 53"
  shows "rne53 (of_int n) = of_int n"
proof -
  let ?x = "of_int n :: rat"
  have xpos: "0 < ?x" using assms(1) by simp
  have "?x < 2 ^ 53" using assms(2) by (metis of_int_less_iff of_int_numeral of_int_power)
  then have "(2::rat) powi ilog2 ?x < 2 powi 53" using ilog2_bounds(1) [OF xpos] by simp
  then have le: "ilog2 ?x < 53" by (simp only: pow2_less_iff)
  define j where "j = nat (52 - ilog2 ?x)"
  have j: "52 - ilog2 ?x = int j" using le by (simp add: j_def)
  have "?x / 2 powi (ilog2 ?x - 52) = ?x * 2 powi (52 - ilog2 ?x)"
    using pow2_diff [of 0 "ilog2 ?x - 52"] by (simp add: field_simps)
  also have "\<dots> = of_int (n * 2 ^ j)" unfolding j by simp
  finally have "?x / 2 powi (ilog2 \<bar>?x\<bar> - 52) = of_int (n * 2 ^ j)" using xpos by simp
  then show ?thesis by (rule rne53_exact)
qed

lemma rne53_of_int:
  assumes "\<bar>n\<bar> < 2 ^ 53"
  shows "rne53 (of_int n) = of_int n"
proof -
  consider "0 < n" | "n = 0" | "n < 0" by linarith
  then show ?thesis
  proof cases
    case 1
    then show ?thesis using assms by (intro rne53_of_nat_pos) auto
  next
    case 2
    then show ?thesis by (simp add: rne53_zero)
  next
    case 3
    then have "rne53 (of_int (- n)) = of_int (- n)" using assms by (intro rne53_of_nat_pos) auto
    then show ?thesis by (simp add: rne53_minus)
  qed
qed

lemma rne53_dyadic:
  assumes "\<bar>n\<bar> < 2 ^ 53"
  shows "rne53 (of_int n * 2 powi k) = of_int n * 2 powi k"
  by (simp only: rne53_scale rne53_of_int [OF assms])

lemma rne53_numeral: "(numeral n :: int) < 2 ^ 53 \<Longrightarrow> rne53 (numeral n) = numeral n"
  using rne53_of_int [of "numeral n"] by simp

lemma rne53_neg_numeral: "(numeral n :: int) < 2 ^ 53 \<Longrightarrow> rne53 (- numeral n) = - numeral n"
  using rne53_of_int [of "- numeral n"] by simp

lemma rne53_one: "rne53 1 = 1"
  using rne53_of_int [of 1] by simp

lemma rhe_error: "\<bar>of_int (rhe z) - z\<bar> \<le> 1 / 2"
proof -
  have "of_int \<lfloor>z\<rfloor> \<le> z" "z < of_int \<lfloor>z\<rfloor> + 1" by linarith+
  then show ?thesis by (auto simp: rhe_def Let_def abs_le_iff)
qed

lemma rne53_error: "\<bar>rne53 x - x\<bar> \<le> \<bar>x\<bar> / 2 ^ 53"
proof (cases "x = 0")
  case True
  then show ?thesis by (simp add: rne53_zero)
next
  case False
  then have ax: "0 < \<bar>x\<bar>" by simp
  let ?q = "(2::rat) powi (ilog2 \<bar>x\<bar> - 52)"
  have qpos: "0 < ?q" by simp
  have r: "rne53 x = ?q * of_int (rhe (x / ?q))" using False by (simp add: rne53_def Let_def)
  have "rne53 x - x = ?q * (of_int (rhe (x / ?q)) - x / ?q)"
    unfolding r using qpos by (simp add: algebra_simps)
  then have "\<bar>rne53 x - x\<bar> = ?q * \<bar>of_int (rhe (x / ?q)) - x / ?q\<bar>"
    using qpos by (simp add: abs_mult)
  also have "\<dots> \<le> ?q * (1 / 2)"
    using rhe_error [of "x / ?q"] qpos by (simp only: mult_le_cancel_left_pos)
  finally have a: "\<bar>rne53 x - x\<bar> \<le> ?q / 2" by simp
  have "?q * 2 ^ 52 \<le> \<bar>x\<bar>"
    using ilog2_bounds(1) [OF ax] pow2_split52 [of "ilog2 \<bar>x\<bar>"] by simp
  then have "?q / 2 \<le> \<bar>x\<bar> / 2 ^ 53" by simp
  with a show ?thesis by linarith
qed


section \<open>The converter, unfolded\<close>

text \<open>
  The converter in terms of the intermediate values. In the chromatic branch the
  \<^verbatim>\<open>switch\<close> always finds its case, because the maximum is one of the three
  channels, and adding \<open>0\<close> to a float does not change it; so the branch computes
  \<open>spec_hue\<close> and \<open>spec_saturation\<close>, provided the second divisor is not zero.
\<close>

lemma fadd_zero_rne53: "fadd 0 (rne53 x) = rne53 x"
  by (simp add: fadd_def rne53_idem)

lemma max3_cases: "max (max r g) b = r \<or> max (max r g) b = g \<or> max (max r g) b = (b::rat)"
  by (auto simp: max_def)

lemma rgbToHSL_achromatic:
  assumes "chroma red green blue = 0"
  shows "rgbToHSL red green blue =
           map_option (\<lambda>li. (0, 0, li)) (toInt (math_Round (fmul 100 (lightness_of red green blue))))"
proof -
  have c: "fsub (math_Max (math_Max (chan red) (chan green)) (chan blue))
                (math_Min (math_Min (chan red) (chan green)) (chan blue)) = 0"
    using assms by (simp only: chroma_def)
  show ?thesis
    unfolding rgbToHSL_def lightness_of_def
    by (simp add: fdiv_def chan_def [symmetric] c Let_def map_option_case split: option.splits)
qed

lemma switch_hue:
  fixes r g b c :: rat
  assumes "c \<noteq> 0" and "mx = max (max r g) b"
  shows "(if mx = r then do { q \<leftarrow> fdiv (fsub g b) c; Some (fadd 0 q) }
            else if mx = g then do { q \<leftarrow> fdiv (fsub b r) c; Some (fadd 2 q) }
            else if mx = b then do { q \<leftarrow> fdiv (fsub r g) c; Some (fadd 4 q) }
            else Some 0)
         = Some (if r = mx then rne53 (fsub g b / c)
                 else if g = mx then fadd 2 (rne53 (fsub b r / c))
                 else fadd 4 (rne53 (fsub r g / c)))"
proof -
  have "mx = r \<or> mx = g \<or> mx = b" unfolding assms(2) by (rule max3_cases)
  then show ?thesis using assms(1) by (auto simp: fdiv_def fadd_zero_rne53)
qed

lemma rgbToHSL_alt:
  "rgbToHSL red green blue =
     (let r = chan red; g = chan green; b = chan blue;
          mn = math_Min (math_Min r g) b; mx = math_Max (math_Max r g) b;
          c = fsub mx mn; l = rne53 (fadd mx mn / 2)
      in if c = 0 then do { li \<leftarrow> toInt (math_Round (fmul 100 l)); Some (0, 0, li) }
         else do {
           h \<leftarrow> (if mx = r then do { q \<leftarrow> fdiv (fsub g b) c; Some (fadd 0 q) }
                 else if mx = g then do { q \<leftarrow> fdiv (fsub b r) c; Some (fadd 2 q) }
                 else if mx = b then do { q \<leftarrow> fdiv (fsub r g) c; Some (fadd 4 q) }
                 else Some 0);
           s \<leftarrow> fdiv (fsub mx l) (math_Min l (fsub 1 l));
           hi \<leftarrow> toInt (math_Round (let d = fmul h 60 in if d < 0 then fadd d 360 else d));
           si \<leftarrow> toInt (math_Round (fmul 100 s));
           li \<leftarrow> toInt (math_Round (fmul 100 l));
           Some (hi, si, li) })"
  unfolding rgbToHSL_def chan_def Let_def
  by (simp add: fdiv_def [of _ 255] fdiv_def [of _ 2])

text \<open>
  Where the language determines the three integers, they are the ones the function
  returns on every platform.
\<close>

lemma rgbToHSL_on_Some:
  assumes "rgbToHSL red green blue = Some t"
  shows "rgbToHSL_on impl red green blue = t"
  using assms unfolding rgbToHSL_alt rgbToHSL_on_def chan_def [symmetric] Let_def
  by (auto simp: fdiv_def int_or_def split: if_splits prod.splits Option.bind_splits)

lemma rgbToHSL_chromatic:
  fixes red green blue :: int
  defines "r \<equiv> chan red" and "g \<equiv> chan green" and "b \<equiv> chan blue"
  defines "l \<equiv> lightness_of red green blue"
  assumes c: "chroma red green blue \<noteq> 0"
    and d: "min l (fsub 1 l) \<noteq> 0"
  shows "rgbToHSL red green blue =
           do { hi \<leftarrow> toInt (math_Round (spec_hue r g b));
                si \<leftarrow> toInt (math_Round (fmul 100 (spec_saturation (max (max r g) b) l)));
                li \<leftarrow> toInt (math_Round (fmul 100 l));
                Some (hi, si, li) }"
proof -
  define mx where "mx = max (max r g) b"
  define mn where "mn = min (min r g) b"
  define cc where "cc = fsub mx mn"
  have c': "cc \<noteq> 0"
    using c by (simp add: cc_def mx_def mn_def chroma_def math_Max_def math_Min_def r_def g_def b_def)
  have l': "rne53 (fadd mx mn / 2) = l"
    by (simp add: mx_def mn_def l_def lightness_of_def math_Max_def math_Min_def r_def g_def b_def)
  note h = switch_hue [OF c' mx_def]
  have s: "fdiv (fsub mx l) (math_Min l (fsub 1 l)) = Some (spec_saturation mx l)"
    using d by (simp add: fdiv_def spec_saturation_def math_Min_def)
  have sh: "spec_hue r g b =
            (let d = fmul (if r = mx then rne53 (fsub g b / cc)
                 else if g = mx then fadd 2 (rne53 (fsub b r / cc))
                 else fadd 4 (rne53 (fsub r g / cc))) 60 in if d < 0 then fadd d 360 else d)"
    by (simp only: spec_hue_def Let_def mx_def mn_def cc_def)
  have "rgbToHSL red green blue =
        (if cc = 0 then do { li \<leftarrow> toInt (math_Round (fmul 100 l)); Some (0, 0, li) }
         else do {
           h \<leftarrow> (if mx = r then do { q \<leftarrow> fdiv (fsub g b) cc; Some (fadd 0 q) }
                 else if mx = g then do { q \<leftarrow> fdiv (fsub b r) cc; Some (fadd 2 q) }
                 else if mx = b then do { q \<leftarrow> fdiv (fsub r g) cc; Some (fadd 4 q) }
                 else Some 0);
           s \<leftarrow> fdiv (fsub mx l) (math_Min l (fsub 1 l));
           hi \<leftarrow> toInt (math_Round (let d = fmul h 60 in if d < 0 then fadd d 360 else d));
           si \<leftarrow> toInt (math_Round (fmul 100 s));
           li \<leftarrow> toInt (math_Round (fmul 100 l));
           Some (hi, si, li) })"
    by (simp only: rgbToHSL_alt Let_def math_Max_def math_Min_def r_def g_def b_def
          mx_def mn_def cc_def l_def lightness_of_def)
  also have "\<dots> = do { hi \<leftarrow> toInt (math_Round (spec_hue r g b));
                si \<leftarrow> toInt (math_Round (fmul 100 (spec_saturation mx l)));
                li \<leftarrow> toInt (math_Round (fmul 100 l));
                Some (hi, si, li) }"
    by (simp only: c' if_False h s sh Option.bind.simps)
  finally show ?thesis by (simp only: mx_def)
qed


section \<open>Channels in the documented domain\<close>

text \<open>
  The normalised channel is monotone in the integer, 0 at 0 and 1 at 255, and distinct
  integers of the domain give distinct floats: two neighbours differ by \<open>1 / 255\<close>,
  the rounding errors by far less.
\<close>

lemma float64_small: "\<bar>n\<bar> < 2 ^ 53 \<Longrightarrow> float64 n = of_int n"
  by (simp add: float64_def rne53_of_int)

lemma chan_small: "0 \<le> n \<Longrightarrow> n \<le> 255 \<Longrightarrow> chan n = rne53 (of_int n / 255)"
  by (simp add: chan_def float64_small)

lemma chan_mono: "m \<le> n \<Longrightarrow> chan m \<le> chan n"
  unfolding chan_def float64_def
  by (intro rne53_mono divide_right_mono) simp_all

lemma chan_0: "chan 0 = 0"
  by (simp add: chan_def float64_def rne53_zero)

lemma chan_255: "chan 255 = 1"
  by (simp add: chan_def float64_def rne53_numeral rne53_one)

lemma chan_repr: "rne53 (chan n) = chan n"
  by (simp add: chan_def rne53_idem)

lemma chan_range:
  assumes "0 \<le> n" "n \<le> 255"
  shows "0 \<le> chan n" and "chan n \<le> 1"
  using chan_mono [OF assms(1)] chan_mono [OF assms(2)] by (simp_all add: chan_0 chan_255)

lemma rne53_255_256: "rne53 (255 / 256) = 255 / 256"
  using rne53_dyadic [of 255 "- 8"] by simp

lemma rne53_511_256: "rne53 (511 / 256) = 511 / 256"
  using rne53_dyadic [of 511 "- 8"] by simp

lemma chan_254:
  assumes "n \<le> 254"
  shows "chan n \<le> 255 / 256"
proof -
  have "chan n \<le> chan 254" using assms by (rule chan_mono)
  also have "\<dots> = rne53 (254 / 255)" by (simp add: chan_def float64_def rne53_numeral)
  also have "\<dots> \<le> rne53 (255 / 256)" by (rule rne53_mono) simp
  finally show ?thesis by (simp only: rne53_255_256)
qed

lemma chan_strict:
  assumes "0 \<le> m" "m < n" "n \<le> 255"
  shows "chan m < chan n"
proof -
  define a where "a = (of_int m :: rat)"
  define b where "b = (of_int n :: rat)"
  have ab: "0 \<le> a" "a + 1 \<le> b" "b \<le> 255"
    using assms unfolding a_def b_def
    by (simp, metis of_int_1 of_int_add of_int_le_iff zless_imp_add1_zle, simp)
  have cm: "chan m = rne53 (a / 255)" using assms by (simp add: chan_small a_def)
  have cn: "chan n = rne53 (b / 255)" using assms by (simp add: chan_small b_def)
  have em: "\<bar>rne53 (a / 255) - a / 255\<bar> \<le> \<bar>a / 255\<bar> / 2 ^ 53" by (rule rne53_error)
  have en: "\<bar>rne53 (b / 255) - b / 255\<bar> \<le> \<bar>b / 255\<bar> / 2 ^ 53" by (rule rne53_error)
  have ea: "\<bar>a / 255\<bar> = a / 255" and eb: "\<bar>b / 255\<bar> = b / 255" using ab by simp_all
  have m1: "rne53 (a / 255) - a / 255 \<le> a / 255 / 2 ^ 53"
    using em unfolding ea abs_le_iff by (rule conjunct1)
  have n1: "- (rne53 (b / 255) - b / 255) \<le> b / 255 / 2 ^ 53"
    using en unfolding eb abs_le_iff by (rule conjunct2)
  have "rne53 (a / 255) < rne53 (b / 255)" using m1 n1 ab by simp
  then show ?thesis by (simp only: cm cn)
qed

lemma chan_inj:
  assumes "0 \<le> m" "m \<le> 255" "0 \<le> n" "n \<le> 255" "chan m = chan n"
  shows "m = n"
proof (rule ccontr)
  assume "m \<noteq> n"
  then consider "m < n" | "n < m" by linarith
  then show False
    using chan_strict [of m n] chan_strict [of n m] assms by cases auto
qed

lemma toInt_Round:
  assumes "0 \<le> x" "x \<le> of_int N" "N < 2 ^ 63"
  shows "toInt (math_Round x) = Some (nearest_int x)"
    and "0 \<le> nearest_int x" and "nearest_int x \<le> N"
proof -
  have n: "nearest_int x = \<lfloor>x + 1 / 2\<rfloor>" using assms(1) by (simp add: nearest_int_def)
  have m: "math_Round x = of_int (nearest_int x)" using assms(1) by (simp add: math_Round_def n)
  show lo: "0 \<le> nearest_int x" unfolding n using assms(1) by simp
  have "x + 1 / 2 < of_int (N + 1)" using assms(2) by simp
  then have "\<lfloor>x + 1 / 2\<rfloor> < N + 1" by (simp only: floor_less_iff)
  then show hi: "nearest_int x \<le> N" unfolding n by simp
  have "(of_int (nearest_int x) :: rat) < of_int (2 ^ 63)"
    using hi assms(3) by (simp only: of_int_less_iff)
  then have "(of_int (nearest_int x) :: rat) < 2 ^ 63" by simp
  moreover have "(0::rat) \<le> of_int (nearest_int x)" using lo by simp
  ultimately show "toInt (math_Round x) = Some (nearest_int x)"
    unfolding m toInt_def by simp
qed


section \<open>Ranges of lightness, saturation and hue\<close>

text \<open>
  The ranges are consequences of monotonicity alone. With \<open>mn \<le> mx \<le> 1\<close> floats,
  \<open>l\<close> is exactly half the rounded sum, \<open>mx \<le> 2 * l\<close> and \<open>l \<le> mx\<close>; hence
  \<open>mx - l\<close> is at most \<open>l\<close> and at most \<open>1 - l\<close>, and so is its rounding.
  The quotient \<open>(x - y) / c\<close> of two channels lies in [-1, 1] after rounding, which
  bounds the hue by 300 before and by 360 after the correction of a negative value.
\<close>

lemma rne53_le_int: "x \<le> of_int n \<Longrightarrow> \<bar>n\<bar> < 2 ^ 53 \<Longrightarrow> rne53 x \<le> of_int n"
  using rne53_mono [of x "of_int n"] by (simp add: rne53_of_int)

lemma rne53_ge_int: "of_int n \<le> x \<Longrightarrow> \<bar>n\<bar> < 2 ^ 53 \<Longrightarrow> of_int n \<le> rne53 x"
  using rne53_mono [of "of_int n" x] by (simp add: rne53_of_int)

lemma rne53_nonneg: "0 \<le> x \<Longrightarrow> 0 \<le> rne53 x"
  using rne53_ge_int [of 0 x] by simp

lemma percent_range:
  assumes "0 \<le> x" "x \<le> 1"
  shows "0 \<le> fmul 100 x" and "fmul 100 x \<le> 100"
proof -
  show "0 \<le> fmul 100 x" unfolding fmul_def using assms(1) by (intro rne53_nonneg) simp
  have "100 * x \<le> of_int 100" using assms(2) by simp
  then have "rne53 (100 * x) \<le> of_int 100" by (rule rne53_le_int) simp
  then show "fmul 100 x \<le> 100" by (simp add: fmul_def)
qed

lemma light_facts:
  assumes rmx: "rne53 mx = mx" and rmn: "rne53 mn = mn"
    and mn0: "0 \<le> mn" and le: "mn \<le> mx" and mx1: "mx \<le> 1"
  defines "l \<equiv> rne53 (fadd mx mn / 2)"
  shows "l = fadd mx mn / 2" and "mx \<le> 2 * l" and "l \<le> mx" and "rne53 l = l"
    and "0 \<le> l" and "l \<le> 1"
proof -
  show l: "l = fadd mx mn / 2" by (simp add: l_def fadd_def rne53_half rne53_idem)
  have "rne53 mx \<le> rne53 (mx + mn)" using mn0 by (intro rne53_mono) simp
  then have a: "mx \<le> fadd mx mn" by (simp add: rmx fadd_def)
  then show m2: "mx \<le> 2 * l" by (simp add: l)
  have "rne53 (mx + mn) \<le> rne53 (2 * mx)" using le by (intro rne53_mono) simp
  then have "fadd mx mn \<le> 2 * mx" by (simp add: fadd_def rne53_double rmx)
  then show lm: "l \<le> mx" by (simp add: l)
  show "rne53 l = l" by (simp add: l_def rne53_idem)
  have "0 \<le> mx" using mn0 le by linarith
  then show "0 \<le> l" using m2 by linarith
  show "l \<le> 1" using lm mx1 by linarith
qed

lemma sat_facts:
  assumes rmx: "rne53 mx = mx" and rmn: "rne53 mn = mn"
    and mn0: "0 \<le> mn" and lt: "mn < mx" and mx1: "mx \<le> 1" and mnb: "mn \<le> 255 / 256"
  defines "l \<equiv> rne53 (fadd mx mn / 2)"
  shows "0 < min l (fsub 1 l)"
    and "0 \<le> spec_saturation mx l" and "spec_saturation mx l \<le> 1"
proof -
  have le: "mn \<le> mx" using lt by simp
  note lf = light_facts [OF rmx rmn mn0 le mx1, folded l_def]
  have lpos: "0 < l" using lf(2) mn0 lt by linarith
  have "rne53 (mx + mn) \<le> rne53 (511 / 256)" using mx1 mnb by (intro rne53_mono) simp
  then have "fadd mx mn \<le> 511 / 256" by (simp only: fadd_def rne53_511_256)
  then have l1: "l \<le> 511 / 512" by (simp add: lf(1))
  then have "0 < 1 - l" by simp
  then have dpos: "0 < fsub 1 l" unfolding fsub_def by (rule rne53_pos)
  show d: "0 < min l (fsub 1 l)" using lpos dpos by simp
  have n0: "0 \<le> fsub mx l" unfolding fsub_def using lf(3) by (intro rne53_nonneg) simp
  have "rne53 (mx - l) \<le> rne53 l" using lf(2) by (intro rne53_mono) simp
  then have n1: "fsub mx l \<le> l" by (simp add: fsub_def lf(4))
  have "rne53 (mx - l) \<le> rne53 (1 - l)" using mx1 by (intro rne53_mono) simp
  then have n2: "fsub mx l \<le> fsub 1 l" by (simp add: fsub_def)
  have nd: "fsub mx l \<le> min l (fsub 1 l)" using n1 n2 by simp
  show "0 \<le> spec_saturation mx l"
    unfolding spec_saturation_def using n0 d by (intro rne53_nonneg) simp
  have "fsub mx l / min l (fsub 1 l) \<le> of_int 1" using nd d by (simp add: pos_divide_le_eq)
  then have "rne53 (fsub mx l / min l (fsub 1 l)) \<le> of_int 1" by (rule rne53_le_int) simp
  then show "spec_saturation mx l \<le> 1" by (simp add: spec_saturation_def)
qed

lemma ratio_range:
  assumes c: "0 < c" and lo: "mn \<le> x" "mn \<le> y" and hi: "x \<le> mx" "y \<le> mx"
    and cdef: "c = fsub mx mn"
  shows "- 1 \<le> rne53 (fsub x y / c)" and "rne53 (fsub x y / c) \<le> 1"
proof -
  have "rne53 (x - y) \<le> rne53 (mx - mn)" using lo hi by (intro rne53_mono) linarith
  then have u: "fsub x y \<le> c" by (simp add: fsub_def cdef)
  have "- (mx - mn) \<le> x - y" using lo hi by linarith
  from rne53_mono [OF this] have "- rne53 (mx - mn) \<le> rne53 (x - y)" by (simp only: rne53_minus)
  then have d: "- c \<le> fsub x y" by (simp only: fsub_def cdef)
  have "of_int (- 1) \<le> fsub x y / c" using d c by (simp add: pos_le_divide_eq)
  then have "of_int (- 1) \<le> rne53 (fsub x y / c)" by (rule rne53_ge_int) simp
  then show "- 1 \<le> rne53 (fsub x y / c)" by simp
  have "fsub x y / c \<le> of_int 1" using u c by (simp add: pos_divide_le_eq)
  then have "rne53 (fsub x y / c) \<le> of_int 1" by (rule rne53_le_int) simp
  then show "rne53 (fsub x y / c) \<le> 1" by simp
qed

lemma fadd_range:
  assumes "of_int a \<le> k + x" "k + x \<le> of_int b" "\<bar>a\<bar> < 2 ^ 53" "\<bar>b\<bar> < 2 ^ 53"
  shows "of_int a \<le> fadd k x" and "fadd k x \<le> of_int b"
  unfolding fadd_def using assms by (auto intro: rne53_ge_int rne53_le_int)

lemma hue_range:
  fixes r g b :: rat
  assumes c: "fsub (max (max r g) b) (min (min r g) b) \<noteq> 0"
  shows "0 \<le> spec_hue r g b" and "spec_hue r g b \<le> 360"
proof -
  define mx where "mx = max (max r g) b"
  define mn where "mn = min (min r g) b"
  define cc where "cc = fsub mx mn"
  define h where "h = (if r = mx then rne53 (fsub g b / cc)
               else if g = mx then fadd 2 (rne53 (fsub b r / cc))
               else fadd 4 (rne53 (fsub r g / cc)))"
  define d where "d = fmul h 60"
  have sh: "spec_hue r g b = (if d < 0 then fadd d 360 else d)"
    by (simp only: spec_hue_def Let_def mx_def mn_def cc_def h_def d_def)
  have bnd: "mn \<le> r" "mn \<le> g" "mn \<le> b" "r \<le> mx" "g \<le> mx" "b \<le> mx"
    by (simp_all add: mx_def mn_def)
  have "0 \<le> mx - mn" using bnd by linarith
  then have "0 \<le> cc" unfolding cc_def fsub_def by (rule rne53_nonneg)
  moreover have "cc \<noteq> 0" unfolding cc_def mx_def mn_def by (rule c)
  ultimately have cpos: "0 < cc" by simp
  note q1 = ratio_range [OF cpos bnd(2) bnd(3) bnd(5) bnd(6) cc_def]
  note q2 = ratio_range [OF cpos bnd(3) bnd(1) bnd(6) bnd(4) cc_def]
  note q3 = ratio_range [OF cpos bnd(1) bnd(2) bnd(4) bnd(5) cc_def]
  have f2: "1 \<le> fadd 2 (rne53 (fsub b r / cc))" "fadd 2 (rne53 (fsub b r / cc)) \<le> 3"
    using fadd_range [of 1 2 "rne53 (fsub b r / cc)" 3] q2 by simp_all
  have f4: "3 \<le> fadd 4 (rne53 (fsub r g / cc))" "fadd 4 (rne53 (fsub r g / cc)) \<le> 5"
    using fadd_range [of 3 4 "rne53 (fsub r g / cc)" 5] q3 by simp_all
  have hr: "- 1 \<le> h" "h \<le> 5" using q1 f2 f4 by (auto simp: h_def)
  have "of_int (- 60) \<le> h * 60" using hr by simp
  then have "of_int (- 60) \<le> rne53 (h * 60)" by (rule rne53_ge_int) simp
  then have d1: "- 60 \<le> d" by (simp add: d_def fmul_def)
  have "h * 60 \<le> of_int 300" using hr by simp
  then have "rne53 (h * 60) \<le> of_int 300" by (rule rne53_le_int) simp
  then have d2: "d \<le> 300" by (simp add: d_def fmul_def)
  show "0 \<le> spec_hue r g b"
  proof (cases "d < 0")
    case True
    have "of_int 300 \<le> d + 360" using d1 by simp
    then have "of_int 300 \<le> rne53 (d + 360)" by (rule rne53_ge_int) simp
    then show ?thesis using True by (simp add: sh fadd_def)
  next
    case False
    then show ?thesis by (simp add: sh)
  qed
  show "spec_hue r g b \<le> 360"
  proof (cases "d < 0")
    case True
    then have "d + 360 \<le> of_int 360" by simp
    then have "rne53 (d + 360) \<le> of_int 360" by (rule rne53_le_int) simp
    then show ?thesis using True by (simp add: sh fadd_def)
  next
    case False
    then show ?thesis using d2 by (simp add: sh)
  qed
qed


section \<open>The converter on channels between 0 and 255\<close>

text \<open>
  On the domain the maximum and minimum are floats between 0 and 1; when they differ,
  the minimum comes from a channel of at most 254, so that \<open>l\<close> stays below 1 and
  both \<open>l\<close> and \<open>1 - l\<close> are positive. All three rounded values fit an
  \<^verbatim>\<open>int\<close>.
\<close>

lemma min3_cases: "min (min r g) b = r \<or> min (min r g) b = g \<or> min (min r g) b = (b::rat)"
  by (auto simp: min_def)

lemma domain_minmax:
  assumes dom: "0 \<le> red" "red \<le> 255" "0 \<le> green" "green \<le> 255" "0 \<le> blue" "blue \<le> 255"
  defines "mx \<equiv> max (max (chan red) (chan green)) (chan blue)"
    and "mn \<equiv> min (min (chan red) (chan green)) (chan blue)"
  shows "rne53 mx = mx" and "rne53 mn = mn" and "0 \<le> mn" and "mn \<le> mx" and "mx \<le> 1"
    and "mn < mx \<Longrightarrow> mn \<le> 255 / 256"
proof -
  have mxc: "mx = chan red \<or> mx = chan green \<or> mx = chan blue"
    unfolding mx_def by (rule max3_cases)
  have mnc: "mn = chan red \<or> mn = chan green \<or> mn = chan blue"
    unfolding mn_def by (rule min3_cases)
  show "rne53 mx = mx" using mxc by (auto simp: chan_repr)
  show "rne53 mn = mn" using mnc by (auto simp: chan_repr)
  show "0 \<le> mn" using mnc chan_range(1) dom by auto
  show mx1: "mx \<le> 1" using mxc chan_range(2) dom by auto
  show "mn \<le> mx" by (simp add: mx_def mn_def min.coboundedI1 max.coboundedI1)
  show "mn \<le> 255 / 256" if "mn < mx"
  proof -
    obtain k where k: "mn = chan k" "0 \<le> k" "k \<le> 255" using mnc dom by auto
    have "k \<noteq> 255" using that mx1 k(1) by (auto simp: chan_255)
    then have "k \<le> 254" using k(3) by simp
    then show ?thesis unfolding k(1) by (rule chan_254)
  qed
qed

lemma chroma_zero_iff:
  assumes dom: "0 \<le> red" "red \<le> 255" "0 \<le> green" "green \<le> 255" "0 \<le> blue" "blue \<le> 255"
  shows "chroma red green blue = 0 \<longleftrightarrow> red = green \<and> green = blue"
proof -
  let ?mx = "max (max (chan red) (chan green)) (chan blue)"
  let ?mn = "min (min (chan red) (chan green)) (chan blue)"
  have "chroma red green blue = 0 \<longleftrightarrow> ?mx = ?mn"
    by (simp add: chroma_def fsub_def math_Max_def math_Min_def rne53_eq_0_iff)
  also have "\<dots> \<longleftrightarrow> chan red = chan green \<and> chan green = chan blue"
    by (auto simp: max_def min_def split: if_splits)
  also have "\<dots> \<longleftrightarrow> red = green \<and> green = blue"
    using chan_inj [of red green] chan_inj [of green blue] dom by auto
  finally show ?thesis .
qed

lemma chroma_pos:
  assumes dom: "0 \<le> red" "red \<le> 255" "0 \<le> green" "green \<le> 255" "0 \<le> blue" "blue \<le> 255"
    and c: "chroma red green blue \<noteq> 0"
  shows "min (min (chan red) (chan green)) (chan blue) < max (max (chan red) (chan green)) (chan blue)"
proof -
  have "min (min (chan red) (chan green)) (chan blue) \<noteq> max (max (chan red) (chan green)) (chan blue)"
    using c by (auto simp: chroma_def fsub_def math_Max_def math_Min_def rne53_zero)
  then show ?thesis using domain_minmax(4) [OF dom] by linarith
qed

lemma lightness_of_eq:
  "lightness_of red green blue =
     rne53 (fadd (max (max (chan red) (chan green)) (chan blue))
                 (min (min (chan red) (chan green)) (chan blue)) / 2)"
  by (simp add: lightness_of_def math_Max_def math_Min_def)

lemma lightness_range:
  assumes dom: "0 \<le> red" "red \<le> 255" "0 \<le> green" "green \<le> 255" "0 \<le> blue" "blue \<le> 255"
  shows "0 \<le> lightness_of red green blue" and "lightness_of red green blue \<le> 1"
  unfolding lightness_of_eq
  using light_facts(5,6) [OF domain_minmax(1,2,3,4,5) [OF dom]] by simp_all

lemma divisor_pos:
  assumes dom: "0 \<le> red" "red \<le> 255" "0 \<le> green" "green \<le> 255" "0 \<le> blue" "blue \<le> 255"
    and c: "chroma red green blue \<noteq> 0"
  shows "0 < min (lightness_of red green blue) (fsub 1 (lightness_of red green blue))"
proof -
  note lt = chroma_pos [OF dom c]
  note mm = domain_minmax [OF dom]
  show ?thesis unfolding lightness_of_eq
    by (rule sat_facts(1) [OF mm(1) mm(2) mm(3) lt mm(5) mm(6) [OF lt]])
qed

lemma saturation_range:
  assumes dom: "0 \<le> red" "red \<le> 255" "0 \<le> green" "green \<le> 255" "0 \<le> blue" "blue \<le> 255"
    and c: "chroma red green blue \<noteq> 0"
  shows "0 \<le> spec_saturation (max (max (chan red) (chan green)) (chan blue)) (lightness_of red green blue)"
    and "spec_saturation (max (max (chan red) (chan green)) (chan blue)) (lightness_of red green blue) \<le> 1"
proof -
  note lt = chroma_pos [OF dom c]
  note mm = domain_minmax [OF dom]
  note sf = sat_facts [OF mm(1) mm(2) mm(3) lt mm(5) mm(6) [OF lt]]
  show "0 \<le> spec_saturation (max (max (chan red) (chan green)) (chan blue)) (lightness_of red green blue)"
    unfolding lightness_of_eq by (rule sf(2))
  show "spec_saturation (max (max (chan red) (chan green)) (chan blue)) (lightness_of red green blue) \<le> 1"
    unfolding lightness_of_eq by (rule sf(3))
qed

lemma hue_range_chroma:
  assumes "chroma red green blue \<noteq> 0"
  shows "0 \<le> spec_hue (chan red) (chan green) (chan blue)"
    and "spec_hue (chan red) (chan green) (chan blue) \<le> 360"
  using assms hue_range [of "chan red" "chan green" "chan blue"]
  by (simp_all add: chroma_def math_Max_def math_Min_def)

lemma rgbToHSL_gray_domain:
  assumes dom: "0 \<le> red" "red \<le> 255" "0 \<le> green" "green \<le> 255" "0 \<le> blue" "blue \<le> 255"
    and c: "chroma red green blue = 0"
  shows "rgbToHSL red green blue =
           Some (0, 0, nearest_int (fmul 100 (lightness_of red green blue)))"
proof -
  note lr = lightness_range [OF dom]
  note pr = percent_range [OF lr]
  have "toInt (math_Round (fmul 100 (lightness_of red green blue))) =
          Some (nearest_int (fmul 100 (lightness_of red green blue)))"
    using pr by (intro toInt_Round(1) [where N = 100]) simp_all
  then show ?thesis by (simp add: rgbToHSL_achromatic [OF c])
qed

lemma rgbToHSL_colour_domain:
  assumes dom: "0 \<le> red" "red \<le> 255" "0 \<le> green" "green \<le> 255" "0 \<le> blue" "blue \<le> 255"
    and c: "chroma red green blue \<noteq> 0"
  shows "rgbToHSL red green blue =
           Some (nearest_int (spec_hue (chan red) (chan green) (chan blue)),
                 nearest_int (fmul 100 (spec_saturation (max (max (chan red) (chan green)) (chan blue))
                                                       (lightness_of red green blue))),
                 nearest_int (fmul 100 (lightness_of red green blue)))"
proof -
  let ?l = "lightness_of red green blue"
  let ?s = "spec_saturation (max (max (chan red) (chan green)) (chan blue)) ?l"
  let ?h = "spec_hue (chan red) (chan green) (chan blue)"
  have d: "min ?l (fsub 1 ?l) \<noteq> 0" using divisor_pos [OF dom c] by (rule less_imp_neq [THEN not_sym])
  note pl = percent_range [OF lightness_range [OF dom]]
  note ps = percent_range [OF saturation_range [OF dom c]]
  note hr = hue_range_chroma [OF c]
  have tl: "toInt (math_Round (fmul 100 ?l)) = Some (nearest_int (fmul 100 ?l))"
    using pl by (intro toInt_Round(1) [where N = 100]) simp_all
  have ts: "toInt (math_Round (fmul 100 ?s)) = Some (nearest_int (fmul 100 ?s))"
    using ps by (intro toInt_Round(1) [where N = 100]) simp_all
  have th: "toInt (math_Round ?h) = Some (nearest_int ?h)"
    using hr by (intro toInt_Round(1) [where N = 360]) simp_all
  show ?thesis by (simp only: rgbToHSL_chromatic [OF c d] th ts tl Option.bind.simps)
qed

text \<open>
  A grey input: \<open>l\<close> is the channel itself, and \<open>100 * l\<close> computed in floating
  point is within \<open>201 / 2 ^ 53\<close> of \<open>100 * n / 255\<close>, whose distance to the
  nearest half-integer is at least \<open>1 / 102\<close> because \<open>40 * n + 51\<close> is odd.
\<close>

lemma rne53_error_le:
  assumes "\<bar>x\<bar> \<le> B"
  shows "\<bar>rne53 x - x\<bar> \<le> B * (1 / 2 ^ 53)"
proof -
  have "\<bar>x\<bar> / 2 ^ 53 \<le> B / 2 ^ 53" using assms by (intro divide_right_mono) simp_all
  then show ?thesis using rne53_error [of x] by simp
qed

lemma chroma_gray: "chroma n n n = 0"
  by (simp add: chroma_def math_Max_def math_Min_def fsub_def rne53_zero)

lemma lightness_gray: "lightness_of n n n = chan n"
proof -
  have "fadd (chan n) (chan n) = 2 * chan n"
    using rne53_double [of "chan n"] by (simp add: fadd_def chan_repr)
  then show ?thesis by (simp add: lightness_of_eq chan_repr)
qed

lemma gray_percent_exact:
  assumes "0 \<le> n" "n \<le> 255"
  shows "nearest_int (fmul 100 (chan n)) = nearest_int (100 * of_int n / 255)"
proof -
  define t where "t = (of_int n :: rat) / 255"
  define a where "a = rne53 t"
  define y where "y = rne53 (100 * a)"
  define m where "m = (40 * n + 51) div 102"
  define k where "k = (40 * n + 51) mod 102"
  have t01: "0 \<le> t" "t \<le> 1" using assms by (simp_all add: t_def)
  have a_eq: "chan n = a" using assms by (simp add: chan_small a_def t_def)
  have a01: "0 \<le> a" "a \<le> 1" using chan_range [OF assms] by (simp_all add: a_eq)
  have y0: "0 \<le> y" unfolding y_def using a01 by (intro rne53_nonneg) simp
  define u where "u = (1::rat) / 2 ^ 53"
  have u: "0 < u" "201 * u < 1 / 102" by (simp_all add: u_def)
  have "\<bar>a - t\<bar> \<le> 1 * u" unfolding a_def u_def using t01 by (intro rne53_error_le) simp
  then have e1: "a - t \<le> u" "t - a \<le> u" by (simp_all add: abs_le_iff)
  have "\<bar>y - 100 * a\<bar> \<le> 100 * u" unfolding y_def u_def using a01 by (intro rne53_error_le) simp
  then have e2: "y - 100 * a \<le> 100 * u" "100 * a - y \<le> 100 * u" by (simp_all add: abs_le_iff)
  have mk: "40 * n + 51 = 102 * m + k" by (simp add: m_def k_def)
  have "odd (40 * n + 51)" by simp
  then have "odd k" unfolding mk by simp
  then have "k \<noteq> 0" by (rule_tac notI) simp
  moreover have "0 \<le> k" "k < 102" by (simp_all add: k_def)
  ultimately have k1: "1 \<le> k" "k \<le> 101" by simp_all
  from mk have "of_int (40 * n + 51) = (of_int (102 * m + k) :: rat)" by (simp only:)
  then have tm: "100 * t + 1 / 2 = of_int m + of_int k / 102" by (simp add: t_def field_simps)
  have kr: "(1::rat) \<le> of_int k" "(of_int k :: rat) \<le> 101" using k1 by simp_all
  have f0: "\<lfloor>100 * t + 1 / 2\<rfloor> = m"
    by (rule floor_unique) (use tm kr in simp_all)
  have f1: "\<lfloor>y + 1 / 2\<rfloor> = m"
  proof (rule floor_unique)
    show "of_int m \<le> y + 1 / 2" using tm kr e1 e2 u by linarith
    show "y + 1 / 2 < of_int m + 1" using tm kr e1 e2 u by linarith
  qed
  have "nearest_int (fmul 100 (chan n)) = \<lfloor>y + 1 / 2\<rfloor>"
    using y0 by (simp add: nearest_int_def fmul_def a_eq y_def)
  also have "\<dots> = \<lfloor>100 * t + 1 / 2\<rfloor>" by (simp only: f0 f1)
  also have "\<dots> = nearest_int (100 * of_int n / 255)"
    using t01 by (simp add: nearest_int_def t_def)
  finally show ?thesis .
qed


section \<open>Concrete conversions\<close>

text \<open>The three primaries, evaluated in the model.\<close>

lemma rgbToHSL_255_0_0: "rgbToHSL 255 0 0 = Some (0, 100, 50)"
  by code_simp

lemma rgbToHSL_0_255_0: "rgbToHSL 0 255 0 = Some (120, 100, 50)"
  by code_simp

lemma rgbToHSL_0_0_255: "rgbToHSL 0 0 255 = Some (240, 100, 50)"
  by code_simp

text \<open>
  The floating-point arithmetic matters for the rounded saturation. For (65, 15, 15) the
  exact value of \<open>100 * (max - l) / min l (1 - l)\<close> is 62.5, which \<open>round\<close> takes
  to 63; the binary64 computation arrives just below 62.5 and the converter returns 62.
\<close>

lemma rgbToHSL_65_15_15:
  "rgbToHSL 65 15 15 = Some (0, 62, 16) \<and>
   nearest_int (100 * ((65 / 255 - (65 / 255 + 15 / 255) / 2) /
                       min ((65 / 255 + 15 / 255) / 2) (1 - (65 / 255 + 15 / 255) / 2))) = 63"
  by code_simp

text \<open>
  An input outside the documented domain: for (510, 0, 0) the lightness is 1, the divisor
  \<open>min l (1 - l)\<close> is 0 and the saturation is not finite. The hue 0 and the lightness
  100 are determined; the saturation is the platform's.
\<close>

lemma rgbToHSL_on_510_0_0:
  "rgbToHSL_on impl 510 0 0 = (0, fst (snd (impl 510 0 0)), 100)"
  by code_simp

text \<open>On the documented domain the platform plays no part.\<close>

lemma rgbToHSL_on_domain:
  assumes "0 \<le> red" "red \<le> 255" "0 \<le> green" "green \<le> 255" "0 \<le> blue" "blue \<le> 255"
  shows "rgbToHSL_on impl red green blue = rgbToHSL_on impl' red green blue"
proof -
  obtain t where "rgbToHSL red green blue = Some t"
    using rgbToHSL_gray_domain [OF assms] rgbToHSL_colour_domain [OF assms]
    by (cases "chroma red green blue = 0") auto
  then show ?thesis by (simp add: rgbToHSL_on_Some)
qed


section \<open>The claims\<close>

text \<open>
  Claim C1. For every input with red = green = blue, each channel between 0 and 255,
  the converter takes the achromatic branch (the chroma is zero), which returns before
  any division by the chroma or by \<open>min l (1 - l)\<close>, and the result is hue 0,
  saturation 0 and lightness \<open>round (100 * R / 255)\<close>. The rounded lightness computed
  in floating point is the one of exact arithmetic: \<open>100 * R / 255\<close> is never closer
  than \<open>1 / 102\<close> to a half-integer, and the rounding errors are far smaller.
\<close>

theorem rgbToHSL_gray:
  assumes "0 \<le> n" "n \<le> 255"
  shows "chroma n n n = 0 \<and> rgbToHSL n n n = Some (0, 0, nearest_int (100 * of_int n / 255))"
proof -
  have "rgbToHSL n n n = Some (0, 0, nearest_int (fmul 100 (lightness_of n n n)))"
    using assms chroma_gray by (intro rgbToHSL_gray_domain)
  then show ?thesis
    by (simp only: chroma_gray lightness_gray gray_percent_exact [OF assms] simp_thms)
qed

theorem rgbToHSL_gray_witness:
  "(0::int) \<le> 128 \<and> (128::int) \<le> 255 \<and> chroma 128 128 128 = 0 \<and>
   rgbToHSL 128 128 128 = Some (0, 0, 50)"
proof -
  have n: "nearest_int (100 * of_int 128 / 255) = 50"
    by (simp add: nearest_int_def floor_eq_iff)
  show ?thesis using rgbToHSL_gray [of 128] unfolding n by simp
qed




text \<open>
  Claim C3. For every chromatic input (chroma nonzero, channels between 0 and 255) the
  hue is the rounding of \<open>spec_hue\<close> on the normalised channels: the branch is chosen
  in the order red, green, blue (red wins a tie for the maximum), the intermediate hue
  is \<open>(g - b) / c\<close>, \<open>2 + (b - r) / c\<close> or \<open>4 + (r - g) / c\<close>, it is multiplied by
  60, and 360 is added when the product is negative. The source's \<^verbatim>\<open>switch\<close> has
  a third case \<^verbatim>\<open>case b\<close> and an initial value \<open>0.0\<close> for the case that nothing
  matches; the theorem shows that this never happens, and that the source's
  \<^verbatim>\<open>0 + (g-b)/c\<close> is \<open>(g - b) / c\<close>.
\<close>

theorem rgbToHSL_hue_formula:
  assumes "0 \<le> red" "red \<le> 255" "0 \<le> green" "green \<le> 255" "0 \<le> blue" "blue \<le> 255"
    and "chroma red green blue \<noteq> 0"
  shows "map_option fst (rgbToHSL red green blue) =
           Some (nearest_int (spec_hue (chan red) (chan green) (chan blue)))"
  using rgbToHSL_colour_domain [OF assms] by simp

theorem rgbToHSL_hue_formula_witness:
  "(0::int) \<le> 255 \<and> chroma 255 0 1 \<noteq> 0 \<and>
   map_option fst (rgbToHSL 255 0 1) = Some (nearest_int (spec_hue (chan 255) (chan 0) (chan 1)))"
  using rgbToHSL_hue_formula [of 255 0 1] chroma_zero_iff [of 255 0 1] by simp

text \<open>
  Claim C4. For every chromatic input (chroma nonzero, channels between 0 and 255) the
  saturation is \<open>round (100 * s)\<close> with \<open>s = (max - l) / min l (1 - l)\<close> and
  \<open>l = (max + min) / 2\<close>, and the result is the triple
  \<open>(round h, round (100 * s), round (100 * l))\<close>. The arithmetic is the floating-point
  arithmetic of the specification (every operation rounded to binary64); only the
  final \<open>round\<close> is exact.
\<close>

theorem rgbToHSL_saturation_formula:
  assumes "0 \<le> red" "red \<le> 255" "0 \<le> green" "green \<le> 255" "0 \<le> blue" "blue \<le> 255"
    and "chroma red green blue \<noteq> 0"
  shows "let r = chan red; g = chan green; b = chan blue;
             mx = max (max r g) b; mn = min (min r g) b;
             l = rne53 (fadd mx mn / 2);
             s = rne53 (fsub mx l / min l (fsub 1 l))
         in rgbToHSL red green blue =
              Some (nearest_int (spec_hue r g b), nearest_int (fmul 100 s), nearest_int (fmul 100 l))"
  using rgbToHSL_colour_domain [OF assms]
  by (simp only: Let_def lightness_of_eq spec_saturation_def)

theorem rgbToHSL_saturation_formula_witness:
  "(0::int) \<le> 255 \<and> chroma 255 128 0 \<noteq> 0 \<and>
   (let r = chan 255; g = chan 128; b = chan 0;
        mx = max (max r g) b; mn = min (min r g) b;
        l = rne53 (fadd mx mn / 2);
        s = rne53 (fsub mx l / min l (fsub 1 l))
    in rgbToHSL 255 128 0 =
         Some (nearest_int (spec_hue r g b), nearest_int (fmul 100 s), nearest_int (fmul 100 l)))"
  using rgbToHSL_saturation_formula [of 255 128 0] chroma_zero_iff [of 255 128 0] by simp

text \<open>
  Claim C5. Pure red (255, 0, 0) is converted to (0, 100, 50), pure green (0, 255, 0)
  to (120, 100, 50) and pure blue (0, 0, 255) to (240, 100, 50).
\<close>

theorem rgbToHSL_primaries:
  "rgbToHSL 255 0 0 = Some (0, 100, 50) \<and>
   rgbToHSL 0 255 0 = Some (120, 100, 50) \<and>
   rgbToHSL 0 0 255 = Some (240, 100, 50)"
  by (simp only: rgbToHSL_255_0_0 rgbToHSL_0_255_0 rgbToHSL_0_0_255 simp_thms)

text \<open>
  Claim C6. For every input with each channel between 0 and 255 the saturation and the
  lightness returned by the converter both lie in [0, 100]. In floating point the
  fraction \<open>s\<close> itself never exceeds 1: \<open>max - l\<close> is at most \<open>l\<close> and at most
  \<open>1 - l\<close> before rounding, and rounding is monotone.
\<close>

theorem rgbToHSL_percent_range:
  assumes "0 \<le> red" "red \<le> 255" "0 \<le> green" "green \<le> 255" "0 \<le> blue" "blue \<le> 255"
  shows "\<exists>h s l. rgbToHSL red green blue = Some (h, s, l) \<and>
           0 \<le> s \<and> s \<le> 100 \<and> 0 \<le> l \<and> l \<le> 100"
proof -
  note pl = percent_range [OF lightness_range [OF assms]]
  have l: "0 \<le> nearest_int (fmul 100 (lightness_of red green blue))"
       "nearest_int (fmul 100 (lightness_of red green blue)) \<le> 100"
    using toInt_Round(2,3) [of "fmul 100 (lightness_of red green blue)" 100] pl by simp_all
  show ?thesis
  proof (cases "chroma red green blue = 0")
    case True
    then show ?thesis using rgbToHSL_gray_domain [OF assms] l by simp
  next
    case False
    note ps = percent_range [OF saturation_range [OF assms False]]
    have s: "0 \<le> nearest_int (fmul 100 (spec_saturation
                 (max (max (chan red) (chan green)) (chan blue)) (lightness_of red green blue)))"
       "nearest_int (fmul 100 (spec_saturation
                 (max (max (chan red) (chan green)) (chan blue)) (lightness_of red green blue))) \<le> 100"
      using toInt_Round(2,3) [of "fmul 100 (spec_saturation
                 (max (max (chan red) (chan green)) (chan blue)) (lightness_of red green blue))" 100] ps
      by simp_all
    show ?thesis using rgbToHSL_colour_domain [OF assms False] l s by simp
  qed
qed

theorem rgbToHSL_percent_range_witness:
  "\<exists>h s l. rgbToHSL 12 200 77 = Some (h, s, l) \<and> 0 \<le> s \<and> s \<le> 100 \<and> 0 \<le> l \<and> l \<le> 100"
  using rgbToHSL_percent_range [of 12 200 77] by simp

text \<open>
  Claim C7. The converter is total on its documented domain: for every input with each
  channel between 0 and 255 it returns a triple, that is, no division by zero occurs
  and every rounded value fits an \<^verbatim>\<open>int\<close>. In the chromatic branch, where the
  chroma \<open>c\<close> is nonzero by the test that selects the branch, the other divisor
  \<open>min l (1 - l)\<close> is nonzero as well.
\<close>

theorem rgbToHSL_total:
  assumes "0 \<le> red" "red \<le> 255" "0 \<le> green" "green \<le> 255" "0 \<le> blue" "blue \<le> 255"
  shows "(\<exists>h s l. rgbToHSL red green blue = Some (h, s, l)) \<and>
         (chroma red green blue \<noteq> 0 \<longrightarrow>
            math_Min (lightness_of red green blue) (fsub 1 (lightness_of red green blue)) \<noteq> 0)"
proof (cases "chroma red green blue = 0")
  case True
  then show ?thesis using rgbToHSL_gray_domain [OF assms] by simp
next
  case False
  have "math_Min (lightness_of red green blue) (fsub 1 (lightness_of red green blue)) \<noteq> 0"
    using divisor_pos [OF assms False] unfolding math_Min_def by (rule less_imp_neq [THEN not_sym])
  then show ?thesis using rgbToHSL_colour_domain [OF assms False] by simp
qed

theorem rgbToHSL_total_witness:
  "(\<exists>h s l. rgbToHSL 255 0 0 = Some (h, s, l)) \<and> chroma 255 0 0 \<noteq> 0 \<and>
   math_Min (lightness_of 255 0 0) (fsub 1 (lightness_of 255 0 0)) \<noteq> 0"
  using rgbToHSL_total [of 255 0 0] chroma_zero_iff [of 255 0 0] by simp

text \<open>
  Claim C9. For every RGB input \<^verbatim>\<open>SetRGB\<close> forwards exactly the converter's
  output: with \<open>(h, s, l)\<close> the triple the converter returns, \<^verbatim>\<open>SetRGB\<close> is
  \<^verbatim>\<open>SetHSL\<close> applied to \<open>h\<close>, \<open>s\<close>, \<open>l\<close>, which marshals the state whose hue
  field is \<open>h\<close>, saturation field is \<open>s\<close> and brightness field is \<open>l\<close> and sends
  it with \<^verbatim>\<open>Put\<close>. When the body marshals and the URL parses, the request that
  \<^verbatim>\<open>SetRGB\<close> hands to the HTTP client is a PUT to the state endpoint with that
  body. Where the language determines the converter's integers, \<open>(h, s, l)\<close> is that
  triple.
\<close>

theorem SetRGB_forwards:
  assumes "rgbToHSL_on impl red green blue = (h, s, l)"
  shows
  "SetRGB impl e c red green blue w = SetHSL e c h s l w \<and>
   SetHSL e c h s l w =
     (case json_Marshal_State e (hsl_state h s l) of
        Inl err \<Rightarrow> (Some err, w)
      | Inr bytes \<Rightarrow> (None, snd (Put e c ''state'' bytes w))) \<and>
   map_option Hue_Value (Hue (hsl_state h s l)) = Some h \<and>
   map_option Saturation_Value (Saturation (hsl_state h s l)) = Some s \<and>
   map_option Brightness_Value (Brightness (hsl_state h s l)) = Some l \<and>
   (json_Marshal_State e (hsl_state h s l) = Inr body \<and>
    url_parse_error e (Endpoint c ''state'') = None \<longrightarrow>
      requests (snd (SetRGB impl e c red green blue w)) =
        requests w @ [\<lparr>Method = ''PUT'', URL = Endpoint c ''state'',
                        Header = [''Content-Type'' \<mapsto> ''application/json'',
                                  ''Accept'' \<mapsto> ''application/json''],
                        Body = body\<rparr>]) \<and>
   (rgbToHSL red green blue = None \<or> rgbToHSL red green blue = Some (h, s, l))"
proof -
  have "rgbToHSL red green blue = None \<or> rgbToHSL red green blue = Some (h, s, l)"
    using rgbToHSL_on_Some [of red green blue _ impl] assms
    by (cases "rgbToHSL red green blue") auto
  moreover have "SetRGB impl e c red green blue w = SetHSL e c h s l w"
    by (simp add: SetRGB_def assms)
  ultimately show ?thesis
    by (auto simp: SetHSL_def hsl_state_def Put_def http_NewRequest_def Let_def
             split: option.splits sum.splits prod.splits)
qed

theorem SetRGB_forwards_witness:
  "SetRGB (\<lambda>r g b. (1, 2, 3)) \<lparr>json_Marshal_State =
         (\<lambda>st. Inr (if st = hsl_state 0 100 50 then ''hsl 0 100 50''
                   else if st = hsl_state 0 2 100 then ''hsl 0 2 100'' else ''other'')),
       json_Marshal_effectsSelectRequest = (\<lambda>r. Inr ''{}''),
       url_parse_error = (\<lambda>u. None), client_Do = (\<lambda>w r. None)\<rparr> \<lparr>Host = ''leaf'', Token = ''t'', Verbose = False\<rparr> 255 0 0 \<lparr>stdout = [], requests = []\<rparr> =
     (None, \<lparr>stdout = [], requests = [\<lparr>Method = ''PUT'', URL = ''http://leaf/api/v1/t/state'',
                        Header = [''Content-Type'' \<mapsto> ''application/json'',
                                  ''Accept'' \<mapsto> ''application/json''],
                        Body = ''hsl 0 100 50''\<rparr>]\<rparr>) \<and>
   SetRGB (\<lambda>r g b. (1, 2, 3)) \<lparr>json_Marshal_State =
         (\<lambda>st. Inr (if st = hsl_state 0 100 50 then ''hsl 0 100 50''
                   else if st = hsl_state 0 2 100 then ''hsl 0 2 100'' else ''other'')),
       json_Marshal_effectsSelectRequest = (\<lambda>r. Inr ''{}''),
       url_parse_error = (\<lambda>u. None), client_Do = (\<lambda>w r. None)\<rparr> \<lparr>Host = ''leaf'', Token = ''t'', Verbose = False\<rparr> 510 0 0 \<lparr>stdout = [], requests = []\<rparr> =
     (None, \<lparr>stdout = [], requests = [\<lparr>Method = ''PUT'', URL = ''http://leaf/api/v1/t/state'',
                        Header = [''Content-Type'' \<mapsto> ''application/json'',
                                  ''Accept'' \<mapsto> ''application/json''],
                        Body = ''hsl 0 2 100''\<rparr>]\<rparr>)"
  using SetRGB_forwards [where impl = "(\<lambda>r g b. (1, 2, 3))" and red = 255 and green = 0 and blue = 0
          and h = 0 and s = 100 and l = 50 and e = "\<lparr>json_Marshal_State =
         (\<lambda>st. Inr (if st = hsl_state 0 100 50 then ''hsl 0 100 50''
                   else if st = hsl_state 0 2 100 then ''hsl 0 2 100'' else ''other'')),
       json_Marshal_effectsSelectRequest = (\<lambda>r. Inr ''{}''),
       url_parse_error = (\<lambda>u. None), client_Do = (\<lambda>w r. None)\<rparr>" and c = "\<lparr>Host = ''leaf'', Token = ''t'', Verbose = False\<rparr>" and w = "\<lparr>stdout = [], requests = []\<rparr>"
          and body = "''hsl 0 100 50''"]
        SetRGB_forwards [where impl = "(\<lambda>r g b. (1, 2, 3))" and red = 510 and green = 0 and blue = 0
          and h = 0 and s = 2 and l = 100 and e = "\<lparr>json_Marshal_State =
         (\<lambda>st. Inr (if st = hsl_state 0 100 50 then ''hsl 0 100 50''
                   else if st = hsl_state 0 2 100 then ''hsl 0 2 100'' else ''other'')),
       json_Marshal_effectsSelectRequest = (\<lambda>r. Inr ''{}''),
       url_parse_error = (\<lambda>u. None), client_Do = (\<lambda>w r. None)\<rparr>" and c = "\<lparr>Host = ''leaf'', Token = ''t'', Verbose = False\<rparr>" and w = "\<lparr>stdout = [], requests = []\<rparr>"
          and body = "''hsl 0 2 100''"]
  by (simp add: rgbToHSL_on_Some [OF rgbToHSL_255_0_0] rgbToHSL_on_510_0_0 hsl_state_def
        Endpoint_def Put_def http_NewRequest_def Let_def)

text \<open>
  Claim C10. Whenever the JSON marshalling succeeds, \<^verbatim>\<open>SelectEffect\<close>,
  \<^verbatim>\<open>SetBrightness\<close>, \<^verbatim>\<open>SetColorTemperature\<close> and \<^verbatim>\<open>SetHSL\<close> return a
  \<^verbatim>\<open>nil\<close> error, whatever \<^verbatim>\<open>Put\<close> returned: its error is discarded, and
  only its effect on the world remains.
\<close>

theorem setters_discard_Put_error:
  "(json_Marshal_effectsSelectRequest e \<lparr>Select = name\<rparr> = Inr b1 \<longrightarrow>
      SelectEffect e c name w = (None, snd (Put e c ''effects/select'' b1 w))) \<and>
   (json_Marshal_State e (brightness_state brightness) = Inr b2 \<longrightarrow>
      SetBrightness e c brightness w = (None, snd (Put e c ''state'' b2 w))) \<and>
   (json_Marshal_State e (colorTemperature_state temperature) = Inr b3 \<longrightarrow>
      SetColorTemperature e c temperature w = (None, snd (Put e c ''state'' b3 w))) \<and>
   (json_Marshal_State e (hsl_state hue sat lightness) = Inr b4 \<longrightarrow>
      SetHSL e c hue sat lightness w = (None, snd (Put e c ''state'' b4 w)))"
  by (simp add: SelectEffect_def SetBrightness_def SetColorTemperature_def SetHSL_def
        Let_def split: prod.splits)

theorem setters_discard_Put_error_witness:
  "fst (Put \<lparr>json_Marshal_State = (\<lambda>st. Inr ''{}''),
          json_Marshal_effectsSelectRequest = (\<lambda>r. Inr ''{}''),
          url_parse_error = (\<lambda>u. None),
          client_Do = (\<lambda>w r. Some (Error ''connection refused''))\<rparr> \<lparr>Host = ''leaf'', Token = ''t'', Verbose = False\<rparr> ''state'' ''{}'' \<lparr>stdout = [], requests = []\<rparr>) = Some (Error ''connection refused'') \<and>
   fst (Put \<lparr>json_Marshal_State = (\<lambda>st. Inr ''{}''),
          json_Marshal_effectsSelectRequest = (\<lambda>r. Inr ''{}''),
          url_parse_error = (\<lambda>u. None),
          client_Do = (\<lambda>w r. Some (Error ''connection refused''))\<rparr> \<lparr>Host = ''leaf'', Token = ''t'', Verbose = False\<rparr> ''effects/select'' ''{}'' \<lparr>stdout = [], requests = []\<rparr>) = Some (Error ''connection refused'') \<and>
   fst (SelectEffect \<lparr>json_Marshal_State = (\<lambda>st. Inr ''{}''),
          json_Marshal_effectsSelectRequest = (\<lambda>r. Inr ''{}''),
          url_parse_error = (\<lambda>u. None),
          client_Do = (\<lambda>w r. Some (Error ''connection refused''))\<rparr> \<lparr>Host = ''leaf'', Token = ''t'', Verbose = False\<rparr> ''Flames'' \<lparr>stdout = [], requests = []\<rparr>) = None \<and>
   fst (SetBrightness \<lparr>json_Marshal_State = (\<lambda>st. Inr ''{}''),
          json_Marshal_effectsSelectRequest = (\<lambda>r. Inr ''{}''),
          url_parse_error = (\<lambda>u. None),
          client_Do = (\<lambda>w r. Some (Error ''connection refused''))\<rparr> \<lparr>Host = ''leaf'', Token = ''t'', Verbose = False\<rparr> 40 \<lparr>stdout = [], requests = []\<rparr>) = None \<and>
   fst (SetColorTemperature \<lparr>json_Marshal_State = (\<lambda>st. Inr ''{}''),
          json_Marshal_effectsSelectRequest = (\<lambda>r. Inr ''{}''),
          url_parse_error = (\<lambda>u. None),
          client_Do = (\<lambda>w r. Some (Error ''connection refused''))\<rparr> \<lparr>Host = ''leaf'', Token = ''t'', Verbose = False\<rparr> 2700 \<lparr>stdout = [], requests = []\<rparr>) = None \<and>
   fst (SetHSL \<lparr>json_Marshal_State = (\<lambda>st. Inr ''{}''),
          json_Marshal_effectsSelectRequest = (\<lambda>r. Inr ''{}''),
          url_parse_error = (\<lambda>u. None),
          client_Do = (\<lambda>w r. Some (Error ''connection refused''))\<rparr> \<lparr>Host = ''leaf'', Token = ''t'', Verbose = False\<rparr> 0 100 50 \<lparr>stdout = [], requests = []\<rparr>) = None"
  using setters_discard_Put_error [of "\<lparr>json_Marshal_State = (\<lambda>st. Inr ''{}''),
          json_Marshal_effectsSelectRequest = (\<lambda>r. Inr ''{}''),
          url_parse_error = (\<lambda>u. None),
          client_Do = (\<lambda>w r. Some (Error ''connection refused''))\<rparr>" "''Flames''" "''{}''" "\<lparr>Host = ''leaf'', Token = ''t'', Verbose = False\<rparr>" "\<lparr>stdout = [], requests = []\<rparr>"
          40 "''{}''" 2700 "''{}''" 0 100 50 "''{}''"]
  by (simp add: Put_def http_NewRequest_def Let_def)

end
